theory Spec2Isabelle
  imports Main "HOL-Library.Word"
begin

section \<open>exec\_every.h: interval scheduling for a polling loop\<close>

text \<open>
  The header schedules a callback from inside a loop that is run over and over. Each
  expansion of one of its macros is a call site with a function-local static object (the
  handle) that keeps the time of the last run and the callback. A poll of the call site
  reads the clock, decides, perhaps runs the callback, and returns a \<open>Maybe\<close>.

  The embedding threads two pieces of state through every operation: the function-local
  statics (one slot per template tag, empty until the first poll constructs it) and the
  world \<open>'w\<close> that the clock function, the conditions and the callback read and change.
  All call sites of one system share the result type \<open>'r\<close>, and a call site is
  identified by its tag alone, as it is when the call sites come from the macros. A
  callback acts on the world only; a callback that resets its own handle is outside the
  embedding. The scheduling functions and \<open>force\<close> are embedded for a result type other
  than \<open>void\<close>; \<open>Maybe<void>\<close> is embedded as a type with its move operations.
\<close>

subsection \<open>Data\<close>

type_synonym uint32_t = "32 word"

text \<open>\<open>using Handle = detail::HandleBase*\<close>: null, or the address of the static handle of
  the call site with the given tag.\<close>

type_synonym Handle = "nat option"

text \<open>\<open>template <typename T> class Maybe\<close>: the flag, the handle and the storage box. The
  box is \<open>None\<close> while no payload is constructed in the union.\<close>

record 'r Maybe =
  has :: bool
  handle :: Handle
  box :: "'r option"

text \<open>\<open>template <> class Maybe<void>\<close>: the flag and the handle only.\<close>

record Maybe_void =
  has_void :: bool
  handle_void :: Handle

text \<open>A callback has one of the shapes \<open>T f(uint32_t)\<close> and \<open>T f()\<close>; a condition is a
  callable taking the elapsed time, a callable taking nothing, or a value converted to
  \<open>bool\<close>.\<close>

datatype ('r, 'w) Callable =
    WithDt "uint32_t \<Rightarrow> 'w \<Rightarrow> 'r \<times> 'w"
  | NoArg "'w \<Rightarrow> 'r \<times> 'w"

datatype 'w Condition =
    CondDt "uint32_t \<Rightarrow> 'w \<Rightarrow> bool \<times> 'w"
  | CondNoArg "'w \<Rightarrow> bool \<times> 'w"
  | CondBool bool

type_synonym 'w MillisFunc = "'w \<Rightarrow> uint32_t \<times> 'w"

text \<open>\<open>detail::LocalHandle<T>\<close> together with the derived struct of
  \<open>every_if_throttled_impl\<close>, which adds the stored callback \<open>f\<close>.\<close>

record ('r, 'w) LocalHandle =
  lastT :: uint32_t
  millis :: "'w MillisFunc"
  stored_f :: "('r, 'w) Callable"

record ('r, 'w) system =
  statics :: "nat \<Rightarrow> ('r, 'w) LocalHandle option"
  world :: 'w

subsection \<open>Maybe\<close>

definition valid :: "'r Maybe \<Rightarrow> bool" where
  "valid m = has m"

text \<open>\<open>value()\<close> reads the box; on an empty \<open>Maybe\<close> the C++ is undefined, here \<open>None\<close>.\<close>

definition value_of :: "'r Maybe \<Rightarrow> 'r option" where
  "value_of m = (if has m then box m else None)"

text \<open>The private \<open>Maybe::reset\<close>: destroy the payload, clear the flag.\<close>

definition Maybe_reset :: "'r Maybe \<Rightarrow> 'r Maybe" where
  "Maybe_reset m = (if has m then m\<lparr>has := False, box := None\<rparr> else m)"

text \<open>\<open>Maybe(Maybe&& other)\<close>: the new object, and what is left of \<open>other\<close>.\<close>

definition move_ctor :: "'r Maybe \<Rightarrow> 'r Maybe \<times> 'r Maybe" where
  "move_ctor other =
     (\<lparr>has = has other, handle = handle other,
       box = (if has other then box other else None)\<rparr>,
      Maybe_reset other)"

text \<open>\<open>Maybe &operator=(Maybe&& other)\<close>. The objects live in a store \<open>H\<close> and are named by
  their addresses, since the operator compares \<open>this\<close> with \<open>&other\<close>.\<close>

definition move_assign :: "('a \<Rightarrow> 'r Maybe) \<Rightarrow> 'a \<Rightarrow> 'a \<Rightarrow> ('a \<Rightarrow> 'r Maybe)" where
  "move_assign H this other =
     (if this = other then H
      else
        let H1 = (if has (H this) then H(this := Maybe_reset (H this)) else H);
            H2 = H1(this := (H1 this)\<lparr>has := has (H1 other), handle := handle (H1 other)\<rparr>);
            H3 = (if has (H2 this) then H2(this := (H2 this)\<lparr>box := box (H2 other)\<rparr>) else H2)
        in H3(other := Maybe_reset (H3 other)))"

text \<open>For \<open>Maybe<void>\<close> both are \<open>= default\<close>: a memberwise copy of a \<open>bool\<close> and a
  pointer, which leaves the source as it was.\<close>

definition move_ctor_void :: "Maybe_void \<Rightarrow> Maybe_void \<times> Maybe_void" where
  "move_ctor_void other =
     (\<lparr>has_void = has_void other, handle_void = handle_void other\<rparr>, other)"

definition move_assign_void :: "('a \<Rightarrow> Maybe_void) \<Rightarrow> 'a \<Rightarrow> 'a \<Rightarrow> ('a \<Rightarrow> Maybe_void)" where
  "move_assign_void H this other =
     H(this := (H this)\<lparr>has_void := has_void (H other), handle_void := handle_void (H other)\<rparr>)"

definition valid_void :: "Maybe_void \<Rightarrow> bool" where
  "valid_void m = has_void m"

subsection \<open>detail: invoke, eval, MaybeFactory, RunAndReturn\<close>

fun invoke :: "('r, 'w) Callable \<Rightarrow> uint32_t \<Rightarrow> 'w \<Rightarrow> 'r \<times> 'w" where
  "invoke (WithDt g) dt w = g dt w"
| "invoke (NoArg g) dt w = g w"

text \<open>The three overloads of \<open>detail::eval_\<close>, in the order in which overload resolution
  prefers them.\<close>

fun eval_overloads :: "'w Condition \<Rightarrow> uint32_t \<Rightarrow> 'w \<Rightarrow> bool \<times> 'w" where
  "eval_overloads (CondDt c) dt w = c dt w"
| "eval_overloads (CondNoArg c) dt w = c w"
| "eval_overloads (CondBool c) dt w = (c, w)"

definition eval :: "'w Condition \<Rightarrow> uint32_t \<Rightarrow> 'w \<Rightarrow> bool \<times> 'w" where
  "eval c dt w = eval_overloads c dt w"

definition MaybeFactory_empty :: "Handle \<Rightarrow> 'r Maybe" where
  "MaybeFactory_empty h = \<lparr>has = False, handle = h, box = None\<rparr>"

definition MaybeFactory_value :: "Handle \<Rightarrow> 'r \<Rightarrow> 'r Maybe" where
  "MaybeFactory_value h v = \<lparr>has = True, handle = h, box = Some v\<rparr>"

definition MaybeFactory_voidValue :: "Handle \<Rightarrow> Maybe_void" where
  "MaybeFactory_voidValue h = \<lparr>has_void = True, handle_void = h\<rparr>"

definition RunAndReturn_run ::
  "('r, 'w) Callable \<Rightarrow> uint32_t \<Rightarrow> Handle \<Rightarrow> 'w \<Rightarrow> 'r Maybe \<times> 'w" where
  "RunAndReturn_run g dt h w =
     (let (v, w') = invoke g dt w in (MaybeFactory_value h v, w'))"

subsection \<open>detail::LocalHandle\<close>

text \<open>The constructor reads the clock: \<open>last(millis())\<close>.\<close>

definition LocalHandle_ctor ::
  "'w MillisFunc \<Rightarrow> ('r, 'w) Callable \<Rightarrow> 'w \<Rightarrow> ('r, 'w) LocalHandle \<times> 'w" where
  "LocalHandle_ctor millisFunc g w =
     (let (t, w') = millisFunc w
      in (\<lparr>lastT = t, millis = millisFunc, stored_f = g\<rparr>, w'))"

definition dt_of :: "('r, 'w) LocalHandle \<Rightarrow> uint32_t \<Rightarrow> uint32_t" where
  "dt_of h now = now - lastT h"

definition reset_to :: "('r, 'w) LocalHandle \<Rightarrow> uint32_t \<Rightarrow> ('r, 'w) LocalHandle" where
  "reset_to h now = h\<lparr>lastT := now\<rparr>"

text \<open>The virtual \<open>reset()\<close>: \<open>reset(millis())\<close> with the handle's own clock function.\<close>

definition LocalHandle_reset ::
  "('r, 'w) LocalHandle \<Rightarrow> 'w \<Rightarrow> ('r, 'w) LocalHandle \<times> 'w" where
  "LocalHandle_reset h w = (let (now, w') = millis h w in (reset_to h now, w'))"

text \<open>The virtual \<open>exec(dt)\<close>; \<open>this\<close> is the static of call site \<open>tag\<close>.\<close>

definition exec :: "nat \<Rightarrow> ('r, 'w) LocalHandle \<Rightarrow> uint32_t \<Rightarrow> 'w \<Rightarrow> 'r Maybe \<times> 'w" where
  "exec tag h dt w = RunAndReturn_run (stored_f h) dt (Some tag) w"

subsection \<open>getHandle, reset, force\<close>

definition getHandle :: "'r Maybe \<Rightarrow> Handle" where
  "getHandle maybe = handle maybe"

text \<open>\<open>exec::reset(h)\<close> is \<open>detail::reset(h)\<close>: \<open>if (h) h->reset()\<close>. A handle that points at
  a static that was never constructed cannot be obtained in the C++; here the result is
  \<open>None\<close>.\<close>

definition reset :: "Handle \<Rightarrow> ('r, 'w) system \<Rightarrow> ('r, 'w) system option" where
  "reset h s =
     (case h of
        None \<Rightarrow> Some s
      | Some tag \<Rightarrow>
          (case statics s tag of
             None \<Rightarrow> None
           | Some lh \<Rightarrow>
               let (lh', w') = LocalHandle_reset lh (world s)
               in Some \<lparr>statics = (statics s)(tag \<mapsto> lh'), world = w'\<rparr>))"

text \<open>\<open>detail::force\<close> behind \<open>Maybe<T>::force(dt)\<close>. The result is the returned value, the
  \<open>Maybe\<close> after the call and the system after the call; \<open>None\<close> stands for the undefined
  behaviour of a null or dangling handle. The assignment \<open>maybe = ...->exec(dt)\<close> is the
  move assignment from the temporary that \<open>exec\<close> returns.\<close>

definition force ::
  "'r Maybe \<Rightarrow> uint32_t \<Rightarrow> ('r, 'w) system \<Rightarrow> ('r \<times> 'r Maybe \<times> ('r, 'w) system) option" where
  "force maybe dt s =
     (if valid maybe then
        (case value_of maybe of None \<Rightarrow> None | Some v \<Rightarrow> Some (v, maybe, s))
      else
        (case getHandle maybe of
           None \<Rightarrow> None
         | Some tag \<Rightarrow>
             (case statics s tag of
                None \<Rightarrow> None
              | Some lh \<Rightarrow>
                  let (tmp, w') = exec tag lh dt (world s);
                      H = move_assign (\<lambda>is_tmp. if is_tmp then tmp else maybe) False True;
                      maybe' = H False
                  in (case value_of maybe' of
                        None \<Rightarrow> None
                      | Some v \<Rightarrow> Some (v, maybe', s\<lparr>world := w'\<rparr>)))))"

subsection \<open>The scheduling entry points\<close>

text \<open>\<open>every_if_throttled_impl<Tag, millis>(interval, runCondition, throttleCondition, f)\<close>.
  The static handle is constructed the first time the call site is reached; later calls
  ignore their \<open>f\<close>. The conjunction \<open>dt >= interval && eval(throttleCondition, dt)\<close> is
  short-circuit.\<close>

definition every_if_throttled_impl ::
  "nat \<Rightarrow> 'w MillisFunc \<Rightarrow> uint32_t \<Rightarrow> 'w Condition \<Rightarrow> 'w Condition \<Rightarrow> ('r, 'w) Callable
     \<Rightarrow> ('r, 'w) system \<Rightarrow> 'r Maybe \<times> ('r, 'w) system" where
  "every_if_throttled_impl Tag millisFunc interval runCondition throttleCondition g s =
     (let (h, w0) = (case statics s Tag of
                       Some h \<Rightarrow> (h, world s)
                     | None \<Rightarrow> LocalHandle_ctor millisFunc g (world s));
          (now, w1) = millisFunc w0;
          dt = dt_of h now
      in if dt \<ge> interval then
           (let (tc, w2) = eval throttleCondition dt w1
            in if tc then
                 (let h' = reset_to h now;
                      (rc, w3) = eval runCondition dt w2
                  in if rc then
                       (let (m, w4) = exec Tag h' dt w3
                        in (m, \<lparr>statics = (statics s)(Tag \<mapsto> h'), world = w4\<rparr>))
                     else (MaybeFactory_empty (Some Tag),
                           \<lparr>statics = (statics s)(Tag \<mapsto> h'), world = w3\<rparr>))
               else (MaybeFactory_empty (Some Tag),
                     \<lparr>statics = (statics s)(Tag \<mapsto> h), world = w2\<rparr>))
         else (MaybeFactory_empty (Some Tag),
               \<lparr>statics = (statics s)(Tag \<mapsto> h), world = w1\<rparr>))"

definition every_impl ::
  "nat \<Rightarrow> 'w MillisFunc \<Rightarrow> uint32_t \<Rightarrow> ('r, 'w) Callable
     \<Rightarrow> ('r, 'w) system \<Rightarrow> 'r Maybe \<times> ('r, 'w) system" where
  "every_impl Tag millisFunc interval g s =
     every_if_throttled_impl Tag millisFunc interval (CondBool True) (CondBool True) g s"

definition every_if_impl ::
  "nat \<Rightarrow> 'w MillisFunc \<Rightarrow> uint32_t \<Rightarrow> 'w Condition \<Rightarrow> ('r, 'w) Callable
     \<Rightarrow> ('r, 'w) system \<Rightarrow> 'r Maybe \<times> ('r, 'w) system" where
  "every_if_impl Tag millisFunc interval c g s =
     every_if_throttled_impl Tag millisFunc interval c (CondBool True) g s"

definition throttled_impl ::
  "nat \<Rightarrow> 'w MillisFunc \<Rightarrow> uint32_t \<Rightarrow> 'w Condition \<Rightarrow> ('r, 'w) Callable
     \<Rightarrow> ('r, 'w) system \<Rightarrow> 'r Maybe \<times> ('r, 'w) system" where
  "throttled_impl Tag millisFunc interval c g s =
     every_if_throttled_impl Tag millisFunc interval (CondBool True) c g s"

subsection \<open>A host for scenarios\<close>

text \<open>The platform's \<open>::millis\<close> and the sketch's \<open>loop()\<close> are the environment of the
  header. The host below is a board with a 32-bit millisecond counter and some user state.
  Its clock function reads the counter and changes nothing; the loop driver sets the
  counter to the given reading before each poll, so the counter stands still during a
  poll.\<close>

record 'u board =
  counter :: uint32_t
  user :: 'u

definition board_millis :: "'u board MillisFunc" where
  "board_millis b = (counter b, b)"

definition at_time :: "uint32_t \<Rightarrow> ('r, 'u board) system \<Rightarrow> ('r, 'u board) system" where
  "at_time t s = s\<lparr>world := (world s)\<lparr>counter := t\<rparr>\<rparr>"

text \<open>One pass of \<open>loop()\<close> per list element: the clock reading of the pass and the
  arguments that the call site is given in that pass.\<close>

fun loop ::
  "('p \<Rightarrow> ('r, 'u board) system \<Rightarrow> 'r Maybe \<times> ('r, 'u board) system)
     \<Rightarrow> (uint32_t \<times> 'p) list \<Rightarrow> ('r, 'u board) system
     \<Rightarrow> 'r Maybe list \<times> ('r, 'u board) system" where
  "loop poll [] s = ([], s)"
| "loop poll ((t, p) # ps) s =
     (let (m, s1) = poll p (at_time t s);
          (ms, s2) = loop poll ps s1
      in (m # ms, s2))"

text \<open>A callback that returns the elapsed time it is given and counts its runs in the user
  state, and the system before any call site has been reached.\<close>

definition report_dt :: "(uint32_t, nat board) Callable" where
  "report_dt = WithDt (\<lambda>dt b. (dt, b\<lparr>user := Suc (user b)\<rparr>))"

definition boot :: "(uint32_t, nat board) system" where
  "boot = \<lparr>statics = (\<lambda>_. None), world = \<lparr>counter = 0, user = 0\<rparr>\<rparr>"

text \<open>The handle of call site 7 with a given last fire time, and a system in which that
  call site has been constructed and the board's counter reads \<open>t\<close>.\<close>

definition timer7 :: "uint32_t \<Rightarrow> (uint32_t, nat board) LocalHandle" where
  "timer7 l = \<lparr>lastT = l, millis = board_millis, stored_f = report_dt\<rparr>"

definition armed :: "uint32_t \<Rightarrow> uint32_t \<Rightarrow> (uint32_t, nat board) system" where
  "armed l t = \<lparr>statics = (\<lambda>_. None)(7 \<mapsto> timer7 l), world = \<lparr>counter = t, user = 0\<rparr>\<rparr>"

text \<open>A custom clock function (as \<open>exec_every_with\<close> accepts) that counts its own calls:
  the world is the number of calls so far.\<close>

definition ticking_millis :: "uint32_t MillisFunc" where
  "ticking_millis n = (n, n + 1)"

definition return_dt :: "(uint32_t, 'w) Callable" where
  "return_dt = WithDt (\<lambda>dt w. (dt, w))"

text \<open>The unconditional policy as the specification words it, over unbounded time: a poll
  at time \<open>t\<close> fires when at least the interval has elapsed since the last fire (or the
  timer start) \<open>l\<close>, and a fire becomes the new \<open>l\<close>.\<close>

fun spec_every_fires :: "nat \<Rightarrow> nat \<Rightarrow> nat list \<Rightarrow> bool list" where
  "spec_every_fires I l [] = []"
| "spec_every_fires I l (t # ts) =
     (if I \<le> t - l then True # spec_every_fires I t ts
      else False # spec_every_fires I l ts)"

text \<open>The same wording with the elapsed time as the 32-bit counter measures it: the
  difference of the true times modulo \<open>2^32\<close>.\<close>

fun spec_every_fires_counter :: "nat \<Rightarrow> nat \<Rightarrow> nat list \<Rightarrow> bool list" where
  "spec_every_fires_counter I l [] = []"
| "spec_every_fires_counter I l (t # ts) =
     (if I \<le> (t - l) mod 2 ^ 32 then True # spec_every_fires_counter I t ts
      else False # spec_every_fires_counter I l ts)"

text \<open>The unconditional policy on the board as a plain recursion over the readings of
  the passes: when at least the interval has elapsed on the counter since \<open>l\<close>, the
  callback runs with the elapsed time, its value is the result of the pass and the reading
  becomes the new \<open>l\<close>; otherwise the pass has no result.\<close>

fun spec_every_run ::
  "uint32_t \<Rightarrow> uint32_t \<Rightarrow> ('r, 'u board) Callable \<Rightarrow> uint32_t list \<Rightarrow> 'u board
     \<Rightarrow> 'r option list \<times> 'u board" where
  "spec_every_run I l cb [] w = ([], w)"
| "spec_every_run I l cb (t # ts) w =
     (if I \<le> t - l
      then (let (v, w1) = invoke cb (t - l) (w\<lparr>counter := t\<rparr>);
                (rs, w2) = spec_every_run I t cb ts w1
            in (Some v # rs, w2))
      else (let (rs, w2) = spec_every_run I l cb ts (w\<lparr>counter := t\<rparr>)
            in (None # rs, w2)))"

section \<open>One poll of a constructed call site\<close>

text \<open>The four ways through \<open>every_if_throttled_impl\<close> once the static handle exists.\<close>

lemma every_if_throttled_impl_not_due:
  assumes "statics s Tag = Some h" and "millisFunc (world s) = (now, w1)"
    and "now - lastT h < interval"
  shows "every_if_throttled_impl Tag millisFunc interval rc tc g s =
           (MaybeFactory_empty (Some Tag), s\<lparr>world := w1\<rparr>)"
  using assms
  by (simp add: every_if_throttled_impl_def dt_of_def map_upd_triv not_le [symmetric])

lemma every_if_throttled_impl_throttled:
  assumes "statics s Tag = Some h" and "millisFunc (world s) = (now, w1)"
    and "interval \<le> now - lastT h" and "eval tc (now - lastT h) w1 = (False, w2)"
  shows "every_if_throttled_impl Tag millisFunc interval rc tc g s =
           (MaybeFactory_empty (Some Tag), s\<lparr>world := w2\<rparr>)"
  using assms by (simp add: every_if_throttled_impl_def dt_of_def map_upd_triv)

lemma every_if_throttled_impl_skipped:
  assumes "statics s Tag = Some h" and "millisFunc (world s) = (now, w1)"
    and "interval \<le> now - lastT h" and "eval tc (now - lastT h) w1 = (True, w2)"
    and "eval rc (now - lastT h) w2 = (False, w3)"
  shows "every_if_throttled_impl Tag millisFunc interval rc tc g s =
           (MaybeFactory_empty (Some Tag),
            \<lparr>statics = (statics s)(Tag \<mapsto> h\<lparr>lastT := now\<rparr>), world = w3\<rparr>)"
  using assms by (simp add: every_if_throttled_impl_def dt_of_def reset_to_def)

lemma every_if_throttled_impl_fired:
  assumes "statics s Tag = Some h" and "millisFunc (world s) = (now, w1)"
    and "interval \<le> now - lastT h" and "eval tc (now - lastT h) w1 = (True, w2)"
    and "eval rc (now - lastT h) w2 = (True, w3)"
    and "invoke (stored_f h) (now - lastT h) w3 = (v, w4)"
  shows "every_if_throttled_impl Tag millisFunc interval rc tc g s =
           (MaybeFactory_value (Some Tag) v,
            \<lparr>statics = (statics s)(Tag \<mapsto> h\<lparr>lastT := now\<rparr>), world = w4\<rparr>)"
  using assms
  by (simp add: every_if_throttled_impl_def dt_of_def reset_to_def exec_def
      RunAndReturn_run_def)

text \<open>The first poll of a call site is the construction of its static handle followed by
  a poll of the constructed call site.\<close>

lemma first_poll_constructs:
  assumes "statics s Tag = None"
  shows "every_if_throttled_impl Tag millisFunc interval rc tc g s =
           every_if_throttled_impl Tag millisFunc interval rc tc g
             \<lparr>statics = (statics s)(Tag \<mapsto> fst (LocalHandle_ctor millisFunc g (world s))),
              world = snd (LocalHandle_ctor millisFunc g (world s))\<rparr>"
proof -
  obtain h0 w0 where "LocalHandle_ctor millisFunc g (world s) = (h0, w0)"
    by (cases "LocalHandle_ctor millisFunc g (world s)")
  with assms show ?thesis
    by (simp add: every_if_throttled_impl_def Let_def split: prod.splits)
qed

section \<open>Elapsed time on a 32-bit counter\<close>

text \<open>The counter reads \<open>T mod 2^32\<close> at true time \<open>T\<close>, that is \<open>of_nat T\<close>.\<close>

lemma unat_elapsed:
  assumes "T0 \<le> T" and "T - T0 < 2 ^ 32"
  shows "unat ((of_nat T :: uint32_t) - of_nat T0) = T - T0"
proof -
  have "(of_nat T :: uint32_t) - of_nat T0 = of_nat (T - T0)"
    using assms(1) by simp
  moreover have "unat (of_nat (T - T0) :: uint32_t) = (T - T0) mod 2 ^ 32"
    by (simp only: unat_of_nat) simp
  ultimately show ?thesis
    using assms(2) by (simp only: mod_less)
qed

text \<open>A reading taken \<open>e\<close> time units after \<open>now\<close>, with \<open>e\<close> below the interval, gives an
  elapsed time below the interval.\<close>

lemma later_by_less_than_interval:
  assumes "e < unat (interval :: uint32_t)"
  shows "(now + of_nat e) - now < interval"
proof -
  have "e < 2 ^ 32"
    using assms unsigned_less [of interval, where ?'a = nat] by simp
  then have "unat (of_nat e :: uint32_t) = e"
    by (simp add: unat_of_nat take_bit_nat_eq_self)
  with assms have "(of_nat e :: uint32_t) < interval"
    by (simp add: word_less_nat_alt)
  then show ?thesis by simp
qed

lemmas scenario_defs =
  every_impl_def every_if_impl_def throttled_impl_def every_if_throttled_impl_def
  LocalHandle_ctor_def dt_of_def eval_def reset_to_def exec_def RunAndReturn_run_def
  MaybeFactory_value_def MaybeFactory_empty_def value_of_def valid_def
  at_time_def board_millis_def report_dt_def boot_def

section \<open>The claims\<close>

text \<open>
  C1 (as amended). Interval 1000, the board's clock starting at 0, and the call site reached
  for the first time at \<open>t = 0\<close>, which constructs its timer with last fire time 0 and
  returns an empty result. Then the poll at \<open>t = 500\<close> is empty, the poll at \<open>t = 1000\<close>
  fires with \<open>dt = 1000\<close>, the poll at \<open>t = 1500\<close> is empty and the poll at \<open>t = 2000\<close>
  fires with \<open>dt = 1000\<close>; the callback has run twice.
\<close>

theorem exec_every_scenario_from_first_poll_at_0:
  "(case loop (\<lambda>_. every_impl 7 board_millis 1000 report_dt)
           [(0, ()), (500, ()), (1000, ()), (1500, ()), (2000, ())] boot of
      (ms, s) \<Rightarrow>
        map valid ms = [False, False, True, False, True]
        \<and> map value_of ms = [None, None, Some 1000, None, Some 1000]
        \<and> user (world s) = 2)"
  by (simp add: scenario_defs)

text \<open>
  C1 as stated fails when the listed polls are all the polls there are: the poll at
  \<open>t = 500\<close> is then the first one and constructs the timer with last fire time 500, so
  the poll at \<open>t = 1000\<close> sees \<open>dt = 500\<close> and is empty, the poll at \<open>t = 1500\<close> fires with
  \<open>dt = 1000\<close>, and the poll at \<open>t = 2000\<close> is empty.
\<close>

theorem exec_every_scenario_first_poll_at_500:
  "map value_of (fst (loop (\<lambda>_. every_impl 7 board_millis 1000 report_dt)
                        [(500, ()), (1000, ()), (1500, ()), (2000, ())] boot))
     = [None, None, Some 1000, None]
   \<and> map valid (fst (loop (\<lambda>_. every_impl 7 board_millis 1000 report_dt)
                        [(500, ()), (1000, ()), (1500, ()), (2000, ())] boot))
     \<noteq> [False, True, False, True]"
  by (simp add: scenario_defs)

text \<open>
  C7 (as amended). The elapsed time is the unsigned 32-bit subtraction
  \<open>now - lastFireTime\<close> modulo \<open>2^32\<close>. With the counter reading \<open>T mod 2^32\<close> at true
  time \<open>T\<close>, the result is the true elapsed duration \<open>T - T0\<close> whenever that duration is
  below \<open>2^32\<close>, also when the counter has wrapped in between.
\<close>

theorem dt_is_true_elapsed_below_2_32:
  "unat (dt_of h now) = (if unat (lastT h) \<le> unat now then unat now - unat (lastT h)
                         else unat now + 2 ^ 32 - unat (lastT h))
   \<and> (lastT h = of_nat T0 \<and> T0 \<le> T \<and> T - T0 < 2 ^ 32
        \<longrightarrow> unat (dt_of h (of_nat T)) = T - T0)"
proof (intro conjI impI)
  show "unat (dt_of h now) = (if unat (lastT h) \<le> unat now then unat now - unat (lastT h)
                              else unat now + 2 ^ 32 - unat (lastT h))"
    by (simp add: dt_of_def unat_sub_if_size word_size)
next
  assume "lastT h = of_nat T0 \<and> T0 \<le> T \<and> T - T0 < 2 ^ 32"
  then show "unat (dt_of h (of_nat T)) = T - T0"
    using unat_elapsed [of T0 T] by (simp only: dt_of_def)
qed

text \<open>Last fire 100 ms before the counter wraps, poll 200 ms after it wrapped.\<close>

theorem dt_is_true_elapsed_below_2_32_witness:
  "unat (dt_of \<lparr>lastT = of_nat 4294967196, millis = board_millis, stored_f = report_dt\<rparr>
           (of_nat 4294967496)) = 4294967496 - 4294967196"
  using dt_is_true_elapsed_below_2_32
    [of "\<lparr>lastT = of_nat 4294967196, millis = board_millis, stored_f = report_dt\<rparr>"
        _ 4294967196 4294967496]
  by simp

text \<open>
  C7 as stated asks only that the counter wrapped at most once. Last fire at true time
  100, poll at true time \<open>2^32 + 200\<close>: the counter wrapped once, the true elapsed time is
  \<open>2^32 + 100\<close>, and \<open>dt\<close> is 100.
\<close>

theorem dt_after_one_wraparound_is_not_elapsed:
  "(4294967496 :: nat) div 2 ^ 32 = 100 div 2 ^ 32 + 1
   \<and> unat (dt_of \<lparr>lastT = of_nat 100, millis = board_millis, stored_f = report_dt\<rparr>
              (of_nat 4294967496)) = 100
   \<and> (100::nat) \<noteq> 4294967496 - 100"
  by (simp add: dt_of_def)

text \<open>
  C8 (as amended). For a result type other than \<open>void\<close>, move construction, and move
  assignment from a different object, give the destination the flag, the handle and the
  payload of the source and leave the source empty; no other object changes. Move
  assignment of an object to itself changes nothing. For \<open>Maybe<void>\<close> the defaulted move
  operations copy the flag and the handle and leave the source as it was.
\<close>

theorem move_transfers_and_empties_source:
  "(case move_ctor other of
      (new, old) \<Rightarrow>
        has new = has other \<and> handle new = handle other \<and> value_of new = value_of other
        \<and> \<not> valid old)
   \<and> (this \<noteq> that \<longrightarrow>
        has (move_assign H this that this) = has (H that)
        \<and> handle (move_assign H this that this) = handle (H that)
        \<and> value_of (move_assign H this that this) = value_of (H that)
        \<and> \<not> valid (move_assign H this that that)
        \<and> (\<forall>a. a \<noteq> this \<and> a \<noteq> that \<longrightarrow> move_assign H this that a = H a))
   \<and> move_assign H this this = H
   \<and> move_ctor_void otherv = (otherv, otherv)
   \<and> move_assign_void Hv this that this = Hv that
   \<and> (this \<noteq> that \<longrightarrow> move_assign_void Hv this that that = Hv that)"
  by (simp add: move_ctor_def move_assign_def Maybe_reset_def value_of_def valid_def
      move_ctor_void_def move_assign_void_def Let_def)

theorem move_transfers_and_empties_source_witness:
  "False \<noteq> True
   \<and> value_of (move_assign (\<lambda>a. if a then MaybeFactory_value (Some 7) (42::nat)
                                  else MaybeFactory_empty None) False True False) = Some 42
   \<and> handle (move_assign (\<lambda>a. if a then MaybeFactory_value (Some 7) (42::nat)
                                else MaybeFactory_empty None) False True False) = Some 7
   \<and> \<not> valid (move_assign (\<lambda>a. if a then MaybeFactory_value (Some 7) (42::nat)
                                  else MaybeFactory_empty None) False True True)
   \<and> valid_void (move_assign_void
        (\<lambda>a. if a then MaybeFactory_voidValue (Some 7)
              else \<lparr>has_void = False, handle_void = None\<rparr>) False True True)"
  using move_transfers_and_empties_source
    [of "MaybeFactory_value (Some 7) (42::nat)" False True
        "\<lambda>a. if a then MaybeFactory_value (Some 7) (42::nat) else MaybeFactory_empty None"
        "\<lparr>has_void = True, handle_void = Some 7\<rparr>"
        "\<lambda>a. if a then MaybeFactory_voidValue (Some 7)
             else \<lparr>has_void = False, handle_void = None\<rparr>"]
  by (simp add: MaybeFactory_value_def MaybeFactory_empty_def MaybeFactory_voidValue_def
      value_of_def valid_def valid_void_def move_assign_def move_assign_void_def
      Maybe_reset_def)

text \<open>
  C8 as stated fails for \<open>void\<close>: a present \<open>Maybe<void>\<close> is still present after it has
  been moved from, by construction and by assignment. It also fails for a \<open>Maybe<T>\<close>
  move-assigned to itself, which stays present.
\<close>

theorem move_from_void_leaves_source_present:
  "valid_void (snd (move_ctor_void (MaybeFactory_voidValue (Some 7))))
   \<and> valid_void (move_assign_void
        (\<lambda>a. if a then MaybeFactory_voidValue (Some 7)
              else \<lparr>has_void = False, handle_void = None\<rparr>) False True True)
   \<and> valid (move_assign (\<lambda>a::bool. MaybeFactory_value (Some 7) (42::nat)) True True True)"
  by (simp add: move_ctor_void_def move_assign_void_def valid_void_def move_assign_def
      valid_def MaybeFactory_value_def MaybeFactory_voidValue_def)

section \<open>force\<close>

text \<open>What a poll returns: the handle of its call site, whose static now exists, and a
  payload whenever the flag is set.\<close>

lemma every_if_throttled_impl_result:
  assumes "every_if_throttled_impl Tag millisFunc interval rc tc g s0 = (m, s1)"
  shows "getHandle m = Some Tag" and "\<exists>h. statics s1 Tag = Some h"
    and "valid m \<Longrightarrow> \<exists>p. value_of m = Some p"
  using assms
  by (auto simp: every_if_throttled_impl_def getHandle_def valid_def value_of_def exec_def
      RunAndReturn_run_def MaybeFactory_empty_def MaybeFactory_value_def Let_def
      split: option.splits prod.splits if_splits)

lemma force_present:
  assumes "valid m" and "value_of m = Some p"
  shows "force m dt s = Some (p, m, s)"
  using assms by (simp add: force_def)

lemma force_empty:
  assumes "\<not> valid m" and "getHandle m = Some Tag" and "statics s Tag = Some h"
    and "invoke (stored_f h) dt (world s) = (v, w')"
  shows "force m dt s = Some (v, MaybeFactory_value (Some Tag) v, s\<lparr>world := w'\<rparr>)"
  using assms
  by (simp add: force_def exec_def RunAndReturn_run_def move_assign_def valid_def
      value_of_def MaybeFactory_value_def Maybe_reset_def getHandle_def)

text \<open>
  C4. Let \<open>m\<close> be the result of a poll of call site \<open>Tag\<close> under any policy, and let the
  call site's static handle be \<open>h\<close> when \<open>force(dt)\<close> is called. If \<open>m\<close> is empty, \<open>force\<close>
  runs the stored callback at once, whatever the interval, the last fire time and the
  conditions are, makes the result present with the value just computed, and returns that
  value. If \<open>m\<close> is present, \<open>force\<close> runs nothing and returns the payload; result and
  system are unchanged.
\<close>

theorem force_on_poll_result:
  assumes "every_if_throttled_impl Tag millisFunc interval rc tc g s0 = (m, s1)"
    and "statics s Tag = Some h"
  shows "if valid m
         then (\<exists>p. value_of m = Some p \<and> force m dt s = Some (p, m, s))
         else (case invoke (stored_f h) dt (world s) of
                 (v, w') \<Rightarrow>
                   force m dt s
                     = Some (v, MaybeFactory_value (Some Tag) v, s\<lparr>world := w'\<rparr>)
                   \<and> valid (MaybeFactory_value (Some Tag) v)
                   \<and> value_of (MaybeFactory_value (Some Tag) v) = Some v)"
proof (cases "valid m")
  case True
  then obtain p where "value_of m = Some p"
    using every_if_throttled_impl_result(3) [OF assms(1)] by blast
  with True show ?thesis by (simp add: force_present)
next
  case False
  obtain v w' where inv: "invoke (stored_f h) dt (world s) = (v, w')"
    by (cases "invoke (stored_f h) dt (world s)")
  have "force m dt s = Some (v, MaybeFactory_value (Some Tag) v, s\<lparr>world := w'\<rparr>)"
    using False every_if_throttled_impl_result(1) [OF assms(1)] assms(2) inv
    by (rule force_empty)
  with False inv show ?thesis
    by (simp add: valid_def value_of_def MaybeFactory_value_def)
qed


theorem force_on_poll_result_witness:
  "\<not> valid (fst (every_if_throttled_impl 7 board_millis 1000 (CondBool True) (CondBool True)
                  report_dt (at_time 500 boot)))
   \<and> map_option fst
        (force (fst (every_if_throttled_impl 7 board_millis 1000 (CondBool True) (CondBool True)
                       report_dt (at_time 500 boot)))
           3
           (snd (every_if_throttled_impl 7 board_millis 1000 (CondBool True) (CondBool True)
                   report_dt (at_time 500 boot)))) = Some 3"
proof -
  let ?h = "\<lparr>lastT = 500, millis = board_millis, stored_f = report_dt\<rparr>"
  let ?s = "\<lparr>statics = (\<lambda>_. None)(7 \<mapsto> ?h), world = \<lparr>counter = 500, user = 0\<rparr>\<rparr>"
  have poll: "every_if_throttled_impl 7 board_millis 1000 (CondBool True) (CondBool True)
                report_dt (at_time 500 boot) = (MaybeFactory_empty (Some 7), ?s)"
    by (simp add: scenario_defs)
  have st: "statics ?s 7 = Some ?h"
    by simp
  from force_on_poll_result [OF poll st, of 3] show ?thesis
    by (simp add: poll) (simp add: scenario_defs)
qed

text \<open>With plain boolean conditions, the decision of a poll and the last fire time after it
  are functions of the stored last fire time, the clock reading and the two booleans.\<close>

lemma poll_decision:
  assumes "statics s Tag = Some h"
  shows "valid (fst (every_if_throttled_impl Tag millisFunc interval (CondBool b) (CondBool c) g s))
           = (interval \<le> fst (millisFunc (world s)) - lastT h \<and> c \<and> b)"
    and "map_option lastT
           (statics (snd (every_if_throttled_impl Tag millisFunc interval (CondBool b) (CondBool c) g s)) Tag)
           = Some (if interval \<le> fst (millisFunc (world s)) - lastT h \<and> c
                   then fst (millisFunc (world s)) else lastT h)"
  using assms
  by (auto simp: every_if_throttled_impl_def valid_def eval_def dt_of_def reset_to_def exec_def
      RunAndReturn_run_def MaybeFactory_empty_def MaybeFactory_value_def Let_def
      split: prod.splits)

text \<open>
  C9. \<open>force\<close> on the result of a poll under any policy returns with every static handle,
  and so every last fire time, as it was; the world afterwards is what the callback made
  of it (and untouched if the result was present). If the callback left the world as it
  was, the system is the one before the call. A later poll of the call site that reads the
  same clock value decides as it would have without the \<open>force\<close>, and leaves the same
  last fire time.
\<close>

theorem force_leaves_timer_unchanged:
  assumes "every_if_throttled_impl Tag millisFunc interval rc tc g s0 = (m, s1)"
    and "statics s Tag = Some h"
  shows "\<exists>v m' s'. force m dt s = Some (v, m', s')
           \<and> statics s' = statics s
           \<and> world s' = (if valid m then world s else snd (invoke (stored_f h) dt (world s)))
           \<and> (world s' = world s \<longrightarrow> s' = s)
           \<and> (\<forall>interval' b c g'.
                 fst (millisFunc (world s')) = fst (millisFunc (world s)) \<longrightarrow>
                   valid (fst (every_if_throttled_impl Tag millisFunc interval'
                                 (CondBool b) (CondBool c) g' s'))
                   = valid (fst (every_if_throttled_impl Tag millisFunc interval'
                                   (CondBool b) (CondBool c) g' s))
                   \<and> map_option lastT (statics (snd (every_if_throttled_impl Tag millisFunc
                                   interval' (CondBool b) (CondBool c) g' s')) Tag)
                     = map_option lastT (statics (snd (every_if_throttled_impl Tag millisFunc
                                   interval' (CondBool b) (CondBool c) g' s)) Tag))"
proof -
  obtain v m' s' where f: "force m dt s = Some (v, m', s')"
    and s': "s' = (if valid m then s
                   else s\<lparr>world := snd (invoke (stored_f h) dt (world s))\<rparr>)"
  proof (cases "valid m")
    case True
    then obtain p where "value_of m = Some p"
      using every_if_throttled_impl_result(3) [OF assms(1)] by blast
    with True have "force m dt s = Some (p, m, s)"
      by (rule force_present)
    with True that show ?thesis by simp
  next
    case False
    obtain v w' where inv: "invoke (stored_f h) dt (world s) = (v, w')"
      by (cases "invoke (stored_f h) dt (world s)")
    have "force m dt s = Some (v, MaybeFactory_value (Some Tag) v, s\<lparr>world := w'\<rparr>)"
      using False every_if_throttled_impl_result(1) [OF assms(1)] assms(2) inv
      by (rule force_empty)
    with False inv that show ?thesis by simp
  qed
  have st: "statics s' = statics s"
    by (simp add: s')
  have w: "world s' = (if valid m then world s else snd (invoke (stored_f h) dt (world s)))"
    by (simp add: s')
  have same: "world s' = world s \<longrightarrow> s' = s"
    by (simp add: s')
  have h': "statics s' Tag = Some h"
    using st assms(2) by simp
  have later: "valid (fst (every_if_throttled_impl Tag millisFunc interval'
                             (CondBool b) (CondBool c) g' s'))
                = valid (fst (every_if_throttled_impl Tag millisFunc interval'
                                (CondBool b) (CondBool c) g' s))
              \<and> map_option lastT (statics (snd (every_if_throttled_impl Tag millisFunc
                                interval' (CondBool b) (CondBool c) g' s')) Tag)
                = map_option lastT (statics (snd (every_if_throttled_impl Tag millisFunc
                                interval' (CondBool b) (CondBool c) g' s)) Tag)"
    if "fst (millisFunc (world s')) = fst (millisFunc (world s))" for interval' b c g'
    using that by (simp only: poll_decision [OF h'] poll_decision [OF assms(2)])
  from f st w same later show ?thesis
    by blast
qed

theorem force_leaves_timer_unchanged_witness:
  "\<exists>v m' s'.
     force (fst (every_if_throttled_impl 7 board_millis 1000 (CondBool True) (CondBool True)
                   report_dt (at_time 500 boot)))
       3
       (snd (every_if_throttled_impl 7 board_millis 1000 (CondBool True) (CondBool True)
               report_dt (at_time 500 boot))) = Some (v, m', s')
     \<and> map_option lastT (statics s' 7) = Some 500
     \<and> user (world s') = 1"
proof -
  let ?h = "\<lparr>lastT = 500, millis = board_millis, stored_f = report_dt\<rparr>"
  let ?s = "\<lparr>statics = (\<lambda>_. None)(7 \<mapsto> ?h), world = \<lparr>counter = 500, user = 0\<rparr>\<rparr>"
  have poll: "every_if_throttled_impl 7 board_millis 1000 (CondBool True) (CondBool True)
                report_dt (at_time 500 boot) = (MaybeFactory_empty (Some 7), ?s)"
    by (simp add: scenario_defs)
  have st: "statics ?s 7 = Some ?h"
    by simp
  from force_leaves_timer_unchanged [OF poll st, of 3]
  obtain v m' s' where "force (MaybeFactory_empty (Some 7)) 3 ?s = Some (v, m', s')"
    and "statics s' = statics ?s"
    and "world s' = (if valid (MaybeFactory_empty (Some 7) :: uint32_t Maybe) then world ?s
                     else snd (invoke (stored_f ?h) 3 (world ?s)))"
    by blast
  then show ?thesis
    by (simp add: poll) (simp add: scenario_defs)
qed

section \<open>Deadlines, reset and the first poll\<close>

text \<open>
  C3. A poll of \<open>every_if\<close> at which \<open>dt >= interval\<close> sets the last fire time to \<open>now\<close>
  whatever the run condition gives. If the condition is true the callback runs with
  \<open>dt\<close>; if it is false the result is empty and the world is as the condition left it, so
  the callback did not run. As long as the statics stay as that poll left them, a poll
  that reads the clock \<open>e\<close> time units later with \<open>e\<close> below the interval returns empty
  and runs nothing: the next opportunity is a full interval later.
\<close>

theorem every_if_resets_at_deadline:
  assumes "statics s Tag = Some h" and "millisFunc (world s) = (now, w1)"
    and "interval \<le> now - lastT h" and "eval c (now - lastT h) w1 = (b, w2)"
  shows "case every_if_impl Tag millisFunc interval c g s of
           (m, s') \<Rightarrow>
             statics s' = (statics s)(Tag \<mapsto> h\<lparr>lastT := now\<rparr>)
             \<and> (b \<longrightarrow> valid m
                      \<and> value_of m = Some (fst (invoke (stored_f h) (now - lastT h) w2))
                      \<and> world s' = snd (invoke (stored_f h) (now - lastT h) w2))
             \<and> (\<not> b \<longrightarrow> \<not> valid m \<and> world s' = w2)
             \<and> (\<forall>e c' g' s2 w'.
                   statics s2 = statics s' \<longrightarrow>
                   millisFunc (world s2) = (now + of_nat e, w') \<longrightarrow>
                   e < unat interval \<longrightarrow>
                     every_if_impl Tag millisFunc interval c' g' s2
                       = (MaybeFactory_empty (Some Tag), s2\<lparr>world := w'\<rparr>))"
proof -
  let ?s' = "snd (every_if_impl Tag millisFunc interval c g s)"
  have tc: "eval (CondBool True) (now - lastT h) w1 = (True, w1)"
    by (simp add: eval_def)
  have st: "statics ?s' = (statics s)(Tag \<mapsto> h\<lparr>lastT := now\<rparr>)"
  proof (cases b)
    case True
    obtain v w4 where "invoke (stored_f h) (now - lastT h) w2 = (v, w4)"
      by (cases "invoke (stored_f h) (now - lastT h) w2")
    with True assms tc show ?thesis
      by (simp add: every_if_impl_def every_if_throttled_impl_fired)
  next
    case False
    with assms tc show ?thesis
      by (simp add: every_if_impl_def every_if_throttled_impl_skipped)
  qed
  have fired: "valid (fst (every_if_impl Tag millisFunc interval c g s))
      \<and> value_of (fst (every_if_impl Tag millisFunc interval c g s))
          = Some (fst (invoke (stored_f h) (now - lastT h) w2))
      \<and> world ?s' = snd (invoke (stored_f h) (now - lastT h) w2)" if b
  proof -
    obtain v w4 where "invoke (stored_f h) (now - lastT h) w2 = (v, w4)"
      by (cases "invoke (stored_f h) (now - lastT h) w2")
    with that assms tc show ?thesis
      by (simp add: every_if_impl_def every_if_throttled_impl_fired valid_def value_of_def
          MaybeFactory_value_def)
  qed
  have skipped: "\<not> valid (fst (every_if_impl Tag millisFunc interval c g s)) \<and> world ?s' = w2"
    if "\<not> b"
    using that assms tc
    by (simp add: every_if_impl_def every_if_throttled_impl_skipped valid_def
        MaybeFactory_empty_def)
  have later: "every_if_impl Tag millisFunc interval c' g' s2
                 = (MaybeFactory_empty (Some Tag), s2\<lparr>world := w'\<rparr>)"
    if "statics s2 = statics ?s'" and "millisFunc (world s2) = (now + of_nat e, w')"
      and "e < unat interval" for e c' g' s2 w'
  proof -
    have "statics s2 Tag = Some (h\<lparr>lastT := now\<rparr>)"
      using that(1) st by simp
    moreover note that(2)
    moreover have "(now + of_nat e) - lastT (h\<lparr>lastT := now\<rparr>) < interval"
      using later_by_less_than_interval [OF that(3)] by simp
    ultimately show ?thesis
      unfolding every_if_impl_def
      by (rule every_if_throttled_impl_not_due)
  qed
  show ?thesis
    using st fired skipped later by (simp add: case_prod_beta)
qed


theorem every_if_resets_at_deadline_witness:
  "\<not> valid (fst (every_if_impl 7 board_millis 1000 (CondBool False) report_dt (armed 0 1000)))
   \<and> map_option lastT
        (statics (snd (every_if_impl 7 board_millis 1000 (CondBool False) report_dt
                         (armed 0 1000))) 7) = Some 1000
   \<and> user (world (snd (every_if_impl 7 board_millis 1000 (CondBool False) report_dt
                         (armed 0 1000)))) = 0
   \<and> \<not> valid (fst (every_if_impl 7 board_millis 1000 (CondBool True) report_dt
                     (at_time (1000 + of_nat 999)
                        (snd (every_if_impl 7 board_millis 1000 (CondBool False) report_dt
                                (armed 0 1000))))))"
proof -
  have a: "statics (armed 0 1000) 7 = Some (timer7 0)"
    and b: "board_millis (world (armed 0 1000)) = (1000, world (armed 0 1000))"
    and c: "1000 \<le> 1000 - lastT (timer7 0)"
    and d: "eval (CondBool False) (1000 - lastT (timer7 0)) (world (armed 0 1000))
              = (False, world (armed 0 1000))"
    by (simp_all add: armed_def timer7_def board_millis_def eval_def)
  let ?r = "every_if_impl 7 board_millis 1000 (CondBool False) report_dt (armed 0 1000)"
  have e: "board_millis (world (at_time (1000 + of_nat 999) (snd ?r)))
             = (1000 + of_nat 999, world (at_time (1000 + of_nat 999) (snd ?r)))"
    by (simp add: board_millis_def at_time_def)
  have f: "statics (at_time (1000 + of_nat 999) (snd ?r)) = statics (snd ?r)"
    by (simp add: at_time_def)
  have g: "(999::nat) < unat (1000 :: uint32_t)"
    by simp
  from every_if_resets_at_deadline
         [where millisFunc = board_millis and s = "armed 0 1000" and g = report_dt, OF a b c d]
  have st: "statics (snd ?r) = (statics (armed 0 1000))(7 \<mapsto> (timer7 0)\<lparr>lastT := 1000\<rparr>)"
    and emp: "\<not> valid (fst ?r)" and w: "world (snd ?r) = world (armed 0 1000)"
    and later: "\<And>e c' g' s2 w'. statics s2 = statics (snd ?r) \<Longrightarrow>
                  board_millis (world s2) = (1000 + of_nat e, w') \<Longrightarrow> e < unat (1000 :: uint32_t) \<Longrightarrow>
                  every_if_impl 7 board_millis 1000 c' g' s2
                    = (MaybeFactory_empty (Some 7), s2\<lparr>world := w'\<rparr>)"
    by (simp_all add: case_prod_beta)
  have "map_option lastT (statics (snd ?r) 7) = Some 1000"
    by (simp only: st) simp
  moreover have "user (world (snd ?r)) = 0"
    by (simp only: w) (simp add: armed_def)
  moreover have "\<not> valid (fst (every_if_impl 7 board_millis 1000 (CondBool True) report_dt
                                 (at_time (1000 + of_nat 999) (snd ?r))))"
    by (simp only: later [OF f e g]) (simp add: valid_def MaybeFactory_empty_def)
  ultimately show ?thesis
    using emp by blast
qed

text \<open>
  C5. \<open>reset(handle)\<close> on a constructed call site sets its last fire time to the reading
  \<open>t\<close> that the handle's clock function returns. As long as the statics stay as the reset
  left them, every poll of the call site that reads the clock \<open>e\<close> time units after \<open>t\<close>,
  with \<open>e\<close> below the interval, returns empty under any policy and conditions, runs
  neither condition nor callback, and leaves the statics as they are.
\<close>

theorem reset_then_full_interval:
  assumes "statics s Tag = Some h" and "millis h (world s) = (t, w0)"
  shows "\<exists>s1. reset (Some Tag) s = Some s1
           \<and> statics s1 = (statics s)(Tag \<mapsto> h\<lparr>lastT := t\<rparr>) \<and> world s1 = w0
           \<and> (\<forall>e millisFunc interval rc tc g s2 w2.
                 statics s2 = statics s1 \<longrightarrow>
                 millisFunc (world s2) = (t + of_nat e, w2) \<longrightarrow>
                 e < unat interval \<longrightarrow>
                   every_if_throttled_impl Tag millisFunc interval rc tc g s2
                     = (MaybeFactory_empty (Some Tag), s2\<lparr>world := w2\<rparr>))"
proof -
  let ?s1 = "\<lparr>statics = (statics s)(Tag \<mapsto> h\<lparr>lastT := t\<rparr>), world = w0\<rparr>"
  have r: "reset (Some Tag) s = Some ?s1"
    using assms by (simp add: reset_def LocalHandle_reset_def reset_to_def)
  have later: "every_if_throttled_impl Tag millisFunc interval rc tc g s2
                 = (MaybeFactory_empty (Some Tag), s2\<lparr>world := w2\<rparr>)"
    if "statics s2 = statics ?s1" and "millisFunc (world s2) = (t + of_nat e, w2)"
      and "e < unat interval" for e millisFunc interval rc tc g s2 w2
  proof -
    have "statics s2 Tag = Some (h\<lparr>lastT := t\<rparr>)"
      using that(1) by simp
    moreover note that(2)
    moreover have "(t + of_nat e) - lastT (h\<lparr>lastT := t\<rparr>) < interval"
      using later_by_less_than_interval [OF that(3)] by simp
    ultimately show ?thesis
      by (rule every_if_throttled_impl_not_due)
  qed
  from r later show ?thesis
    by (intro exI [of _ ?s1]) simp
qed

theorem reset_then_full_interval_witness:
  "(case reset (Some 7) (armed 0 1700) of
      None \<Rightarrow> False
    | Some s1 \<Rightarrow>
        map_option lastT (statics s1 7) = Some 1700
        \<and> \<not> valid (fst (every_impl 7 board_millis 1000 report_dt
                          (at_time (1700 + of_nat 999) s1))))"
proof -
  have a: "statics (armed 0 1700) 7 = Some (timer7 0)"
    and b: "millis (timer7 0) (world (armed 0 1700)) = (1700, world (armed 0 1700))"
    by (simp_all add: armed_def timer7_def board_millis_def)
  from reset_then_full_interval [where s = "armed 0 1700", OF a b]
  obtain s1 where r: "reset (Some 7) (armed 0 1700) = Some s1"
    and st: "statics s1 = (statics (armed 0 1700))(7 \<mapsto> (timer7 0)\<lparr>lastT := 1700\<rparr>)"
    and all: "\<forall>e millisFunc interval rc tc g s2 w2.
                  statics s2 = statics s1 \<longrightarrow> millisFunc (world s2) = (1700 + of_nat e, w2) \<longrightarrow>
                  e < unat interval \<longrightarrow>
                  every_if_throttled_impl 7 millisFunc interval rc tc g
                      (s2 :: (uint32_t, nat board) system)
                     = (MaybeFactory_empty (Some 7), s2\<lparr>world := w2\<rparr>)"
    by (elim exE conjE)
  note later = all [rule_format]
  have "every_if_throttled_impl 7 board_millis 1000 (CondBool True) (CondBool True)
          report_dt (at_time (1700 + of_nat 999) s1)
        = (MaybeFactory_empty (Some 7), (at_time (1700 + of_nat 999) s1)
             \<lparr>world := world (at_time (1700 + of_nat 999) s1)\<rparr>)"
    by (rule later [where e = 999]) (simp_all add: at_time_def board_millis_def)
  with r st show ?thesis
    by (simp add: every_impl_def valid_def MaybeFactory_empty_def)
qed

text \<open>
  C10 (as amended). The first poll of a call site constructs its static handle with the
  last fire time set to the reading \<open>t0\<close> that the constructor takes. The poll then reads
  the clock again; if that reading is less than the interval past \<open>t0\<close> (as it is when the
  clock has not moved and the interval is positive), the first poll returns empty and runs
  nothing. Until the statics change, a poll that reads the clock \<open>e\<close> time units after
  \<open>t0\<close> with \<open>e\<close> below the interval returns empty: the first fire is no earlier than one
  interval after \<open>t0\<close>.
\<close>

theorem first_poll_starts_timer:
  assumes "statics s Tag = None" and "millisFunc (world s) = (t0, w0)"
    and "millisFunc w0 = (now, w1)" and "now - t0 < interval"
  shows "every_if_throttled_impl Tag millisFunc interval rc tc g s
           = (MaybeFactory_empty (Some Tag),
              \<lparr>statics = (statics s)(Tag \<mapsto> \<lparr>lastT = t0, millis = millisFunc, stored_f = g\<rparr>),
               world = w1\<rparr>)
         \<and> (\<forall>e rc' tc' g' s2 w2.
               statics s2 = (statics s)(Tag \<mapsto> \<lparr>lastT = t0, millis = millisFunc, stored_f = g\<rparr>) \<longrightarrow>
               millisFunc (world s2) = (t0 + of_nat e, w2) \<longrightarrow>
               e < unat interval \<longrightarrow>
                 every_if_throttled_impl Tag millisFunc interval rc' tc' g' s2
                   = (MaybeFactory_empty (Some Tag), s2\<lparr>world := w2\<rparr>))"
proof -
  let ?h = "\<lparr>lastT = t0, millis = millisFunc, stored_f = g\<rparr>"
  have ctor: "LocalHandle_ctor millisFunc g (world s) = (?h, w0)"
    using assms(2) by (simp add: LocalHandle_ctor_def)
  let ?s0 = "\<lparr>statics = (statics s)(Tag \<mapsto> ?h), world = w0\<rparr>"
  have "every_if_throttled_impl Tag millisFunc interval rc tc g s
          = every_if_throttled_impl Tag millisFunc interval rc tc g ?s0"
    using first_poll_constructs [OF assms(1), of millisFunc interval rc tc g]
    by (simp add: ctor)
  also have "\<dots> = (MaybeFactory_empty (Some Tag), ?s0\<lparr>world := w1\<rparr>)"
    by (rule every_if_throttled_impl_not_due [where h = ?h and now = now])
       (simp_all add: assms)
  finally have first: "every_if_throttled_impl Tag millisFunc interval rc tc g s
      = (MaybeFactory_empty (Some Tag), \<lparr>statics = (statics s)(Tag \<mapsto> ?h), world = w1\<rparr>)"
    by simp
  have later: "every_if_throttled_impl Tag millisFunc interval rc' tc' g' s2
                 = (MaybeFactory_empty (Some Tag), s2\<lparr>world := w2\<rparr>)"
    if "statics s2 = (statics s)(Tag \<mapsto> ?h)" and "millisFunc (world s2) = (t0 + of_nat e, w2)"
      and "e < unat interval" for e rc' tc' g' s2 w2
  proof -
    have "statics s2 Tag = Some ?h"
      using that(1) by simp
    moreover note that(2)
    moreover have "(t0 + of_nat e) - lastT ?h < interval"
      using later_by_less_than_interval [OF that(3)] by simp
    ultimately show ?thesis
      by (rule every_if_throttled_impl_not_due)
  qed
  from first later show ?thesis
    by blast
qed

theorem first_poll_starts_timer_witness:
  "\<not> valid (fst (every_impl 7 board_millis 1000 report_dt (at_time 500 boot)))
   \<and> map_option lastT (statics (snd (every_impl 7 board_millis 1000 report_dt
                                        (at_time 500 boot))) 7) = Some 500
   \<and> user (world (snd (every_impl 7 board_millis 1000 report_dt (at_time 500 boot)))) = 0"
proof -
  have a: "statics (at_time 500 boot) 7 = None"
    and b: "board_millis (world (at_time 500 boot)) = (500, world (at_time 500 boot))"
    and c: "(500 :: uint32_t) - 500 < 1000"
    by (simp_all add: at_time_def boot_def board_millis_def)
  from first_poll_starts_timer
         [where millisFunc = board_millis and s = "at_time 500 boot" and Tag = 7
            and interval = 1000 and rc = "CondBool True" and tc = "CondBool True"
            and g = report_dt, OF a b b c]
  have "every_if_throttled_impl 7 board_millis 1000 (CondBool True) (CondBool True) report_dt
          (at_time 500 boot)
        = (MaybeFactory_empty (Some 7),
           \<lparr>statics = (statics (at_time 500 boot))
                         (7 \<mapsto> \<lparr>lastT = 500, millis = board_millis, stored_f = report_dt\<rparr>),
            world = world (at_time 500 boot)\<rparr>)"
    by (rule conjunct1)
  then show ?thesis
    by (simp add: every_impl_def valid_def MaybeFactory_empty_def at_time_def boot_def)
qed

text \<open>
  C10 as stated fails when the clock moves between the constructor's reading and the
  poll's own reading. With a clock function that advances by one per call and interval 1,
  the constructor reads 0, the poll reads 1, and the first poll fires with \<open>dt = 1\<close>.
\<close>

theorem first_poll_fires_when_clock_ticks:
  "valid (fst (every_impl 7 ticking_millis 1 return_dt \<lparr>statics = (\<lambda>_. None), world = 0\<rparr>))
   \<and> value_of (fst (every_impl 7 ticking_millis 1 return_dt
                       \<lparr>statics = (\<lambda>_. None), world = 0\<rparr>)) = Some 1"
  by (simp add: scenario_defs ticking_millis_def return_dt_def)

section \<open>Runs of the loop on the board\<close>

lemma loop_append:
  "loop poll (xs @ ys) s =
     (case loop poll xs s of
        (ms1, s1) \<Rightarrow> (case loop poll ys s1 of (ms2, s2) \<Rightarrow> (ms1 @ ms2, s2)))"
  by (induction xs arbitrary: s) (auto split: prod.splits)

lemma at_time_at_time: "at_time t (at_time t' s) = at_time t s"
  by (simp add: at_time_def)

lemma statics_at_time: "statics (at_time t s) = statics s"
  by (simp add: at_time_def)

text \<open>One poll of the throttled policy once the interval has elapsed, for any clock and any
  shape of condition.\<close>

lemma throttled_poll:
  assumes "statics s Tag = Some h" and "millisFunc (world s) = (now, w1)"
    and "interval \<le> now - lastT h" and "eval c (now - lastT h) w1 = (b, w2)"
  shows "throttled_impl Tag millisFunc interval c g s
           = (if b
              then (MaybeFactory_value (Some Tag)
                      (fst (invoke (stored_f h) (now - lastT h) w2)),
                    \<lparr>statics = (statics s)(Tag \<mapsto> h\<lparr>lastT := now\<rparr>),
                     world = snd (invoke (stored_f h) (now - lastT h) w2)\<rparr>)
              else (MaybeFactory_empty (Some Tag), s\<lparr>world := w2\<rparr>))"
proof (cases b)
  case True
  then have tc: "eval c (now - lastT h) w1 = (True, w2)"
    using assms(4) by simp
  have rc: "eval (CondBool True) (now - lastT h) w2 = (True, w2)"
    by (simp add: eval_def)
  obtain v w4 where inv: "invoke (stored_f h) (now - lastT h) w2 = (v, w4)"
    by (cases "invoke (stored_f h) (now - lastT h) w2")
  have "every_if_throttled_impl Tag millisFunc interval (CondBool True) c g s
          = (MaybeFactory_value (Some Tag) v,
             \<lparr>statics = (statics s)(Tag \<mapsto> h\<lparr>lastT := now\<rparr>), world = w4\<rparr>)"
    using assms(1,2,3) tc rc inv
    by (rule every_if_throttled_impl_fired)
  with True inv show ?thesis
    by (simp add: throttled_impl_def)
next
  case False
  then have tc: "eval c (now - lastT h) w1 = (False, w2)"
    using assms(4) by simp
  have "every_if_throttled_impl Tag millisFunc interval (CondBool True) c g s
          = (MaybeFactory_empty (Some Tag), s\<lparr>world := w2\<rparr>)"
    using assms(1,2,3) tc
    by (rule every_if_throttled_impl_throttled)
  with False show ?thesis
    by (simp add: throttled_impl_def)
qed

lemma board_poll_world: "board_millis (world (at_time t s)) = (t, world (at_time t s))"
  by (simp add: board_millis_def at_time_def)

text \<open>On the board, a poll of the throttled policy before the interval has elapsed, or
  with a condition that evaluates to false and leaves the world alone, leaves the system as
  the loop driver set it.\<close>

lemma throttled_waits:
  assumes "statics s Tag = Some h"
    and "t - lastT h < interval
         \<or> eval c (t - lastT h) (world (at_time t s)) = (False, world (at_time t s))"
  shows "throttled_impl Tag board_millis interval c g (at_time t s)
           = (MaybeFactory_empty (Some Tag), at_time t s)"
proof (cases "t - lastT h < interval")
  case True
  have "every_if_throttled_impl Tag board_millis interval (CondBool True) c g (at_time t s)
        = (MaybeFactory_empty (Some Tag), (at_time t s)\<lparr>world := world (at_time t s)\<rparr>)"
    by (rule every_if_throttled_impl_not_due [where h = h and now = t])
       (simp_all add: assms(1) True statics_at_time board_poll_world)
  then show ?thesis by (simp add: throttled_impl_def)
next
  case False
  with assms(2)
  have ev: "eval c (t - lastT h) (world (at_time t s)) = (False, world (at_time t s))"
    by simp
  have st: "statics (at_time t s) Tag = Some h"
    by (simp add: assms(1) statics_at_time)
  have due: "interval \<le> t - lastT h"
    using False by simp
  from throttled_poll [where millisFunc = board_millis and g = g, OF st board_poll_world [of t s] due ev]
  show ?thesis by simp
qed

lemma loop_throttled_waits:
  assumes "statics s Tag = Some h"
    and "\<forall>(t, c) \<in> set ps.
           t - lastT h < interval
           \<or> eval c (t - lastT h) (world (at_time t s)) = (False, world (at_time t s))"
  shows "loop (\<lambda>c. throttled_impl Tag board_millis interval c g) ps s
           = (replicate (length ps) (MaybeFactory_empty (Some Tag)),
              if ps = [] then s else at_time (fst (last ps)) s)"
  using assms
proof (induction ps arbitrary: s)
  case Nil
  then show ?case by simp
next
  case (Cons p ps)
  obtain t c where p: "p = (t, c)" by (cases p)
  have step: "throttled_impl Tag board_millis interval c g (at_time t s)
                = (MaybeFactory_empty (Some Tag), at_time t s)"
    using Cons.prems p by (intro throttled_waits) auto
  have "statics (at_time t s) Tag = Some h"
    using Cons.prems(1) by (simp add: statics_at_time)
  moreover have "\<forall>(t', c') \<in> set ps.
           t' - lastT h < interval
           \<or> eval c' (t' - lastT h) (world (at_time t' (at_time t s)))
               = (False, world (at_time t' (at_time t s)))"
    using Cons.prems(2) by (simp add: at_time_at_time)
  ultimately have "loop (\<lambda>c. throttled_impl Tag board_millis interval c g) ps (at_time t s)
           = (replicate (length ps) (MaybeFactory_empty (Some Tag)),
              if ps = [] then at_time t s else at_time (fst (last ps)) (at_time t s))"
    by (rule Cons.IH)
  with step p show ?case
    by (simp add: at_time_at_time)
qed

lemma throttled_fires:
  assumes "statics s Tag = Some h" and "interval \<le> t - lastT h"
    and "eval c (t - lastT h) (world (at_time t s)) = (True, w2)"
  shows "throttled_impl Tag board_millis interval c g (at_time t s)
           = (MaybeFactory_value (Some Tag) (fst (invoke (stored_f h) (t - lastT h) w2)),
              \<lparr>statics = (statics s)(Tag \<mapsto> h\<lparr>lastT := t\<rparr>),
               world = snd (invoke (stored_f h) (t - lastT h) w2)\<rparr>)"
proof -
  have st: "statics (at_time t s) Tag = Some h"
    by (simp add: assms(1) statics_at_time)
  from throttled_poll [where millisFunc = board_millis and g = g, OF st board_poll_world [of t s] assms(2,3)]
  show ?thesis by (simp add: statics_at_time)
qed

lemma loop_throttled_until_true:
  assumes st: "statics s Tag = Some h"
    and pre: "\<forall>(t', c') \<in> set ps.
           t' - lastT h < interval
           \<or> eval c' (t' - lastT h) (world (at_time t' s)) = (False, world (at_time t' s))"
    and due: "interval \<le> t - lastT h"
    and tr: "eval c (t - lastT h) (world (at_time t s)) = (True, w2)"
  shows "loop (\<lambda>c. throttled_impl Tag board_millis interval c g) (ps @ [(t, c)]) s
         = (replicate (length ps) (MaybeFactory_empty (Some Tag))
              @ [MaybeFactory_value (Some Tag) (fst (invoke (stored_f h) (t - lastT h) w2))],
            \<lparr>statics = (statics s)(Tag \<mapsto> h\<lparr>lastT := t\<rparr>),
             world = snd (invoke (stored_f h) (t - lastT h) w2)\<rparr>)"
proof -
  let ?poll = "\<lambda>c. throttled_impl Tag board_millis interval c g"
  have waits: "loop ?poll ps s
      = (replicate (length ps) (MaybeFactory_empty (Some Tag)),
         if ps = [] then s else at_time (fst (last ps)) s)"
    using st pre by (rule loop_throttled_waits)
  have fire: "?poll c (at_time t s)
      = (MaybeFactory_value (Some Tag) (fst (invoke (stored_f h) (t - lastT h) w2)),
         \<lparr>statics = (statics s)(Tag \<mapsto> h\<lparr>lastT := t\<rparr>),
          world = snd (invoke (stored_f h) (t - lastT h) w2)\<rparr>)"
    using st due tr by (rule throttled_fires)
  have "loop ?poll (ps @ [(t, c)]) s
          = (case loop ?poll ps s of
               (ms1, s1) \<Rightarrow> (case loop ?poll [(t, c)] s1 of (ms2, s2) \<Rightarrow> (ms1 @ ms2, s2)))"
    by (rule loop_append)
  then show ?thesis
    by (simp only: waits) (simp add: at_time_at_time fire)
qed


text \<open>With true times that only advance and stay within \<open>2^32\<close> of the last fire time,
  a poll after a due poll is due.\<close>

lemma due_later:
  assumes "L \<le> T1" and "T1 \<le> T" and "T - L < 2 ^ 32"
    and "interval \<le> of_nat T1 - (of_nat L :: uint32_t)"
  shows "interval \<le> of_nat T - of_nat L"
proof -
  have "unat (of_nat T1 - (of_nat L :: uint32_t)) = T1 - L"
    using assms(1,2,3) by (intro unat_elapsed) simp_all
  moreover have "unat (of_nat T - (of_nat L :: uint32_t)) = T - L"
    using assms(1,2,3) by (intro unat_elapsed) simp_all
  moreover have "unat interval \<le> unat (of_nat T1 - (of_nat L :: uint32_t))"
    using assms(4) by (simp add: word_le_nat_alt)
  ultimately show ?thesis
    using assms(2) by (simp add: word_le_nat_alt)
qed

lemma loop_throttled_advancing:
  assumes st: "statics s Tag = Some h" and l: "lastT h = of_nat L"
    and srt: "sorted (L # T1 # map fst ps @ [T])" and hor: "T - L < 2 ^ 32"
    and due: "interval \<le> of_nat T1 - of_nat L"
    and c1: "eval c1 (of_nat T1 - of_nat L) (world (at_time (of_nat T1) s))
               = (False, world (at_time (of_nat T1) s))"
    and cs: "\<forall>(T', c') \<in> set ps.
               eval c' (of_nat T' - of_nat L) (world (at_time (of_nat T') s))
                 = (False, world (at_time (of_nat T') s))"
    and tr: "eval c (of_nat T - of_nat L) (world (at_time (of_nat T) s)) = (True, w2)"
  shows "loop (\<lambda>c. throttled_impl Tag board_millis interval c g)
           ((of_nat T1, c1) # map (apfst of_nat) ps @ [(of_nat T, c)]) s
         = (replicate (Suc (length ps)) (MaybeFactory_empty (Some Tag))
              @ [MaybeFactory_value (Some Tag)
                   (fst (invoke (stored_f h) (of_nat T - of_nat L) w2))],
            \<lparr>statics = (statics s)(Tag \<mapsto> h\<lparr>lastT := of_nat T\<rparr>),
             world = snd (invoke (stored_f h) (of_nat T - of_nat L) w2)\<rparr>)"
proof -
  let ?pre = "(of_nat T1, c1) # map (apfst of_nat) ps"
  have pre: "\<forall>(t', c') \<in> set ?pre.
           t' - lastT h < interval
           \<or> eval c' (t' - lastT h) (world (at_time t' s)) = (False, world (at_time t' s))"
    using c1 cs by (auto simp: l)
  have "L \<le> T1" and "T1 \<le> T"
    using srt by simp_all
  then have "interval \<le> of_nat T - of_nat L"
    using hor due by (rule due_later)
  then have due': "interval \<le> of_nat T - lastT h"
    by (simp add: l)
  have tr': "eval c (of_nat T - lastT h) (world (at_time (of_nat T) s)) = (True, w2)"
    using tr by (simp add: l)
  from loop_throttled_until_true [OF st pre due' tr', of g]
  show ?thesis by (simp add: l)
qed

text \<open>
  C2 (as amended). A poll of the throttled policy at which \<open>dt >= interval\<close> evaluates the
  condition, for any clock and any shape of condition. If it is false the result is empty
  and nothing changes but what evaluating the condition changed: the last fire time stays.
  If it is true the stored callback runs with \<open>dt\<close> and \<open>now\<close> becomes the last fire time.
  On the board, after any polls that are not yet due or whose condition evaluates to false,
  a poll whose \<open>dt\<close>, the 32-bit difference to the unchanged last fire time, is at least the
  interval and whose condition is true fires with that \<open>dt\<close>. When the true times of the
  polls only advance and stay within \<open>2^32\<close> of the last fire time, every poll after a due
  one is due again, also across a wrap of the counter: the polls with a false condition are
  empty and the first poll with a true condition fires, with no further interval waited
  for.
\<close>

theorem throttled_waits_then_fires:
  "(statics s Tag = Some h \<longrightarrow> millisFunc (world s) = (now, w1) \<longrightarrow>
    interval \<le> now - lastT h \<longrightarrow> eval c (now - lastT h) w1 = (b, w2) \<longrightarrow>
      throttled_impl Tag millisFunc interval c g s
        = (if b
           then (MaybeFactory_value (Some Tag)
                   (fst (invoke (stored_f h) (now - lastT h) w2)),
                 \<lparr>statics = (statics s)(Tag \<mapsto> h\<lparr>lastT := now\<rparr>),
                  world = snd (invoke (stored_f h) (now - lastT h) w2)\<rparr>)
           else (MaybeFactory_empty (Some Tag), s\<lparr>world := w2\<rparr>)))
   \<and> (statics sb Tag = Some hb \<longrightarrow>
       (\<forall>(t', c') \<in> set ps.
           t' - lastT hb < intervalb
           \<or> eval c' (t' - lastT hb) (world (at_time t' sb)) = (False, world (at_time t' sb))) \<longrightarrow>
       intervalb \<le> t - lastT hb \<longrightarrow>
       eval cb (t - lastT hb) (world (at_time t sb)) = (True, wb) \<longrightarrow>
         loop (\<lambda>c. throttled_impl Tag board_millis intervalb c gb) (ps @ [(t, cb)]) sb
           = (replicate (length ps) (MaybeFactory_empty (Some Tag))
                @ [MaybeFactory_value (Some Tag)
                     (fst (invoke (stored_f hb) (t - lastT hb) wb))],
              \<lparr>statics = (statics sb)(Tag \<mapsto> hb\<lparr>lastT := t\<rparr>),
               world = snd (invoke (stored_f hb) (t - lastT hb) wb)\<rparr>))
   \<and> (statics sb Tag = Some hb \<longrightarrow> lastT hb = of_nat L \<longrightarrow>
       sorted (L # T1 # map fst qs @ [T]) \<longrightarrow> T - L < 2 ^ 32 \<longrightarrow>
       intervalb \<le> of_nat T1 - of_nat L \<longrightarrow>
       eval c1 (of_nat T1 - of_nat L) (world (at_time (of_nat T1) sb))
         = (False, world (at_time (of_nat T1) sb)) \<longrightarrow>
       (\<forall>(T', c') \<in> set qs.
           eval c' (of_nat T' - of_nat L) (world (at_time (of_nat T') sb))
             = (False, world (at_time (of_nat T') sb))) \<longrightarrow>
       eval cb (of_nat T - of_nat L) (world (at_time (of_nat T) sb)) = (True, wb) \<longrightarrow>
         loop (\<lambda>c. throttled_impl Tag board_millis intervalb c gb)
              ((of_nat T1, c1) # map (apfst of_nat) qs @ [(of_nat T, cb)]) sb
           = (replicate (Suc (length qs)) (MaybeFactory_empty (Some Tag))
                @ [MaybeFactory_value (Some Tag)
                     (fst (invoke (stored_f hb) (of_nat T - of_nat L) wb))],
              \<lparr>statics = (statics sb)(Tag \<mapsto> hb\<lparr>lastT := of_nat T\<rparr>),
               world = snd (invoke (stored_f hb) (of_nat T - of_nat L) wb)\<rparr>))"
  by (intro conjI impI throttled_poll loop_throttled_until_true loop_throttled_advancing)

theorem throttled_waits_then_fires_witness:
  "(case loop (\<lambda>c. throttled_impl 7 board_millis 500 c report_dt)
          [(of_nat 4294967696, CondBool False), (of_nat 4294967996, CondNoArg (\<lambda>b. (False, b))),
           (of_nat 4294968396, CondDt (\<lambda>dt b. (1000 \<le> dt, b)))]
          (armed (of_nat 4294967196) 0) of
      (ms, s') \<Rightarrow>
        map valid ms = [False, False, True]
        \<and> value_of (last ms) = Some 1200
        \<and> map_option lastT (statics s' 7) = Some (of_nat 4294968396)
        \<and> user (world s') = 1)"
proof -
  let ?s = "armed (of_nat 4294967196) 0"
  have a: "statics ?s 7 = Some (timer7 (of_nat 4294967196))"
    and b: "lastT (timer7 (of_nat 4294967196)) = of_nat 4294967196"
    and c: "sorted (4294967196 # 4294967696
                      # map fst [(4294967996 :: nat, CondNoArg (\<lambda>b :: nat board. (False, b)))]
                      @ [4294968396])"
    and d: "(4294968396 :: nat) - 4294967196 < 2 ^ 32"
    and e: "(500 :: uint32_t) \<le> of_nat 4294967696 - of_nat 4294967196"
    and f: "eval (CondBool False) (of_nat 4294967696 - of_nat 4294967196)
              (world (at_time (of_nat 4294967696) ?s))
            = (False, world (at_time (of_nat 4294967696) ?s))"
    and g: "\<forall>(T', c') \<in> set [(4294967996 :: nat, CondNoArg (\<lambda>b :: nat board. (False, b)))].
              eval c' (of_nat T' - of_nat 4294967196) (world (at_time (of_nat T') ?s))
                = (False, world (at_time (of_nat T') ?s))"
    and h: "eval (CondDt (\<lambda>dt b. (1000 \<le> dt, b))) (of_nat 4294968396 - of_nat 4294967196)
              (world (at_time (of_nat 4294968396) ?s))
            = (True, world (at_time (of_nat 4294968396) ?s))"
    by (simp_all add: armed_def timer7_def eval_def at_time_def)
  from throttled_waits_then_fires
         [where sb = ?s and Tag = 7 and hb = "timer7 (of_nat 4294967196)"
            and L = 4294967196 and ?T1.0 = 4294967696
            and qs = "[(4294967996, CondNoArg (\<lambda>b. (False, b)))]" and T = 4294968396
            and intervalb = 500 and gb = report_dt and ?c1.0 = "CondBool False"
            and cb = "CondDt (\<lambda>dt b. (1000 \<le> dt, b))"
            and wb = "world (at_time (of_nat 4294968396) ?s)",
          THEN conjunct2, THEN conjunct2, THEN mp, THEN mp, THEN mp, THEN mp, THEN mp,
          THEN mp, THEN mp, THEN mp, OF a b c d e f g h]
  show ?thesis
    by (simp add: scenario_defs armed_def timer7_def)
qed

text \<open>
  C2 as stated fails once the counter has gone round: last fire time 0, interval 500, a
  poll at 500 with a false condition, and the next poll at true time \<open>2^32 + 100\<close> with a
  true condition. The counter reads 100, \<open>dt\<close> is 100, the condition is not evaluated and
  the callback does not run.
\<close>

theorem throttled_skips_true_condition_after_wrap:
  "map valid (fst (loop (\<lambda>c. throttled_impl 7 board_millis 500 c report_dt)
                     [(500, CondBool False), (of_nat 4294967396, CondBool True)] (armed 0 0)))
     = [False, False]
   \<and> user (world (snd (loop (\<lambda>c. throttled_impl 7 board_millis 500 c report_dt)
                     [(500, CondBool False), (of_nat 4294967396, CondBool True)] (armed 0 0))))
     = 0
   \<and> map_option lastT
        (statics (snd (loop (\<lambda>c. throttled_impl 7 board_millis 500 c report_dt)
                     [(500, CondBool False), (of_nat 4294967396, CondBool True)] (armed 0 0))) 7)
     = Some 0"
  by (simp add: scenario_defs armed_def timer7_def)

lemma world_at_time: "world (at_time t s) = (world s)\<lparr>counter := t\<rparr>"
  by (simp add: at_time_def)

section \<open>The unconditional policy over a run\<close>

lemma valid_factory:
  "valid (MaybeFactory_value h v)" "\<not> valid (MaybeFactory_empty h)"
  by (simp_all add: valid_def MaybeFactory_value_def MaybeFactory_empty_def)

lemma value_of_factory:
  "value_of (MaybeFactory_value h v) = Some v" "value_of (MaybeFactory_empty h) = None"
  by (simp_all add: value_of_def MaybeFactory_value_def MaybeFactory_empty_def)

text \<open>One poll of the unconditional policy, for any clock.\<close>

lemma every_poll:
  assumes "statics s Tag = Some h" and "millisFunc (world s) = (now, w1)"
  shows "every_impl Tag millisFunc interval g s
           = (if interval \<le> now - lastT h
              then (MaybeFactory_value (Some Tag)
                      (fst (invoke (stored_f h) (now - lastT h) w1)),
                    \<lparr>statics = (statics s)(Tag \<mapsto> h\<lparr>lastT := now\<rparr>),
                     world = snd (invoke (stored_f h) (now - lastT h) w1)\<rparr>)
              else (MaybeFactory_empty (Some Tag), s\<lparr>world := w1\<rparr>))"
proof (cases "interval \<le> now - lastT h")
  case True
  have c: "eval (CondBool True) (now - lastT h) w1 = (True, w1)"
    by (simp add: eval_def)
  obtain v w4 where inv: "invoke (stored_f h) (now - lastT h) w1 = (v, w4)"
    by (cases "invoke (stored_f h) (now - lastT h) w1")
  have "every_if_throttled_impl Tag millisFunc interval (CondBool True) (CondBool True) g s
        = (MaybeFactory_value (Some Tag) v,
           \<lparr>statics = (statics s)(Tag \<mapsto> h\<lparr>lastT := now\<rparr>), world = w4\<rparr>)"
    using assms True c c inv by (rule every_if_throttled_impl_fired)
  with True inv show ?thesis
    by (simp add: every_impl_def)
next
  case False
  then have "now - lastT h < interval" by simp
  with assms
  have "every_if_throttled_impl Tag millisFunc interval (CondBool True) (CondBool True) g s
        = (MaybeFactory_empty (Some Tag), s\<lparr>world := w1\<rparr>)"
    by (rule every_if_throttled_impl_not_due)
  with False show ?thesis
    by (simp add: every_impl_def)
qed

lemma every_poll_board:
  assumes "statics s Tag = Some h"
  shows "every_impl Tag board_millis interval g (at_time t s)
           = (if interval \<le> t - lastT h
              then (MaybeFactory_value (Some Tag)
                      (fst (invoke (stored_f h) (t - lastT h) (world (at_time t s)))),
                    \<lparr>statics = (statics s)(Tag \<mapsto> h\<lparr>lastT := t\<rparr>),
                     world = snd (invoke (stored_f h) (t - lastT h) (world (at_time t s)))\<rparr>)
              else (MaybeFactory_empty (Some Tag), at_time t s))"
proof -
  have st: "statics (at_time t s) Tag = Some h"
    using assms by (simp add: statics_at_time)
  from every_poll [where millisFunc = board_millis and g = g and interval = interval,
                   OF st board_poll_world [of t s]]
  show ?thesis by (simp add: statics_at_time)
qed

lemma loop_every_first_poll:
  assumes "statics s Tag = None"
  shows "loop (\<lambda>_. every_impl Tag board_millis interval g) ((t, ()) # ps) s
           = loop (\<lambda>_. every_impl Tag board_millis interval g) ((t, ()) # ps)
               (s\<lparr>statics := (statics s)
                    (Tag \<mapsto> \<lparr>lastT = t, millis = board_millis, stored_f = g\<rparr>)\<rparr>)"
proof -
  let ?h = "\<lparr>lastT = t, millis = board_millis, stored_f = g\<rparr>"
  have none: "statics (at_time t s) Tag = None"
    using assms by (simp add: statics_at_time)
  have ctor: "LocalHandle_ctor board_millis g (world (at_time t s)) = (?h, world (at_time t s))"
    by (simp add: LocalHandle_ctor_def board_millis_def at_time_def)
  have eq: "\<lparr>statics = (statics (at_time t s))(Tag \<mapsto> ?h), world = world (at_time t s)\<rparr>
              = at_time t (s\<lparr>statics := (statics s)(Tag \<mapsto> ?h)\<rparr>)"
    by (cases s) (simp add: at_time_def)
  have "every_impl Tag board_millis interval g (at_time t s)
      = every_impl Tag board_millis interval g
          (at_time t (s\<lparr>statics := (statics s)(Tag \<mapsto> ?h)\<rparr>))"
    unfolding every_impl_def
    using first_poll_constructs [OF none, of board_millis interval "CondBool True"
        "CondBool True" g]
    by (simp only: ctor fst_conv snd_conv eq)
  then show ?thesis by simp
qed

text \<open>A run started on a call site that is constructed, or not yet reached, is a run on a
  constructed call site with the same world.\<close>

lemma loop_every_start:
  assumes "(statics s Tag = Some h \<and> l = lastT h \<and> cb = stored_f h)
           \<or> (statics s Tag = None \<and> ts \<noteq> [] \<and> l = hd ts \<and> cb = g)"
  obtains s0 h0 where "statics s0 Tag = Some h0" and "lastT h0 = l" and "stored_f h0 = cb"
    and "world s0 = world s"
    and "loop (\<lambda>_. every_impl Tag board_millis interval g) (map (\<lambda>t. (t, ())) ts) s
           = loop (\<lambda>_. every_impl Tag board_millis interval g) (map (\<lambda>t. (t, ())) ts) s0"
  using assms
proof (elim disjE conjE)
  assume "statics s Tag = Some h" "l = lastT h" "cb = stored_f h"
  then show thesis by (intro that [of s h]) simp_all
next
  assume none: "statics s Tag = None" and "ts \<noteq> []" and l: "l = hd ts" and cb: "cb = g"
  then obtain ts' where ts: "ts = l # ts'"
    by (cases ts) auto
  let ?h = "\<lparr>lastT = l, millis = board_millis, stored_f = g\<rparr>"
  let ?s = "s\<lparr>statics := (statics s)(Tag \<mapsto> ?h)\<rparr>"
  have "loop (\<lambda>_. every_impl Tag board_millis interval g) (map (\<lambda>t. (t, ())) ts) s
      = loop (\<lambda>_. every_impl Tag board_millis interval g) (map (\<lambda>t. (t, ())) ts) ?s"
    unfolding ts list.map by (rule loop_every_first_poll [OF none])
  then show thesis
    by (intro that [of ?s ?h]) (simp_all add: cb)
qed

lemma loop_every_run:
  assumes "statics s Tag = Some h"
  shows "map value_of (fst (loop (\<lambda>_. every_impl Tag board_millis interval g)
                              (map (\<lambda>t. (t, ())) ts) s))
           = fst (spec_every_run interval (lastT h) (stored_f h) ts (world s))
         \<and> world (snd (loop (\<lambda>_. every_impl Tag board_millis interval g)
                          (map (\<lambda>t. (t, ())) ts) s))
           = snd (spec_every_run interval (lastT h) (stored_f h) ts (world s))"
  using assms
proof (induction ts arbitrary: s h)
  case Nil
  then show ?case by simp
next
  case (Cons t ts)
  let ?P = "\<lambda>_. every_impl Tag board_millis interval g"
  show ?case
  proof (cases "interval \<le> t - lastT h")
    case True
    let ?s1 = "\<lparr>statics = (statics s)(Tag \<mapsto> h\<lparr>lastT := t\<rparr>),
                world = snd (invoke (stored_f h) (t - lastT h) (world (at_time t s)))\<rparr>"
    have "statics ?s1 Tag = Some (h\<lparr>lastT := t\<rparr>)" by simp
    then have "map value_of (fst (loop ?P (map (\<lambda>t. (t, ())) ts) ?s1))
           = fst (spec_every_run interval (lastT (h\<lparr>lastT := t\<rparr>))
                    (stored_f (h\<lparr>lastT := t\<rparr>)) ts (world ?s1))
         \<and> world (snd (loop ?P (map (\<lambda>t. (t, ())) ts) ?s1))
           = snd (spec_every_run interval (lastT (h\<lparr>lastT := t\<rparr>))
                    (stored_f (h\<lparr>lastT := t\<rparr>)) ts (world ?s1))"
      by (rule Cons.IH)
    with True show ?thesis
      by (simp add: every_poll_board [OF Cons.prems] value_of_factory world_at_time
          case_prod_beta)
  next
    case False
    have "statics (at_time t s) Tag = Some h"
      using Cons.prems by (simp add: statics_at_time)
    then have "map value_of (fst (loop ?P (map (\<lambda>t. (t, ())) ts) (at_time t s)))
           = fst (spec_every_run interval (lastT h) (stored_f h) ts (world (at_time t s)))
         \<and> world (snd (loop ?P (map (\<lambda>t. (t, ())) ts) (at_time t s)))
           = snd (spec_every_run interval (lastT h) (stored_f h) ts (world (at_time t s)))"
      by (rule Cons.IH)
    with False show ?thesis
      by (simp add: every_poll_board [OF Cons.prems] value_of_factory world_at_time
          case_prod_beta)
  qed
qed

lemma due_iff_counter:
  assumes "L \<le> T"
  shows "(interval \<le> of_nat T - (of_nat L :: uint32_t)) = (unat interval \<le> (T - L) mod 2 ^ 32)"
proof -
  have "(of_nat T :: uint32_t) - of_nat L = of_nat (T - L)"
    using assms by simp
  moreover have "unat (of_nat (T - L) :: uint32_t) = (T - L) mod 2 ^ 32"
    by (simp only: unat_of_nat) simp
  ultimately show ?thesis
    by (simp only: word_le_nat_alt)
qed

lemma loop_every_counter:
  assumes "statics s Tag = Some h" and "lastT h = of_nat L" and "sorted (L # Ts)"
  shows "map valid (fst (loop (\<lambda>_. every_impl Tag board_millis interval g)
                           (map (\<lambda>t. (t, ())) (map of_nat Ts)) s))
           = spec_every_fires_counter (unat interval) L Ts"
  using assms
proof (induction Ts arbitrary: s h L)
  case Nil
  then show ?case by simp
next
  case (Cons T Ts)
  have le: "L \<le> T" using Cons.prems(3) by simp
  have iff: "(interval \<le> of_nat T - lastT h) = (unat interval \<le> (T - L) mod 2 ^ 32)"
    using due_iff_counter [OF le, of interval] by (simp add: Cons.prems(2))
  show ?case
  proof (cases "interval \<le> of_nat T - lastT h")
    case True
    let ?s1 = "\<lparr>statics = (statics s)(Tag \<mapsto> h\<lparr>lastT := of_nat T\<rparr>),
                world = snd (invoke (stored_f h) (of_nat T - lastT h)
                               (world (at_time (of_nat T) s)))\<rparr>"
    have "statics ?s1 Tag = Some (h\<lparr>lastT := of_nat T\<rparr>)" by simp
    moreover have "lastT (h\<lparr>lastT := of_nat T\<rparr>) = of_nat T" by simp
    moreover have "sorted (T # Ts)" using Cons.prems(3) by simp
    ultimately have "map valid (fst (loop (\<lambda>_. every_impl Tag board_millis interval g)
                           (map (\<lambda>t. (t, ())) (map of_nat Ts)) ?s1))
           = spec_every_fires_counter (unat interval) T Ts"
      by (rule Cons.IH)
    with True iff show ?thesis
      by (simp add: every_poll_board [OF Cons.prems(1)] valid_factory case_prod_beta)
  next
    case False
    have "statics (at_time (of_nat T) s) Tag = Some h"
      using Cons.prems(1) by (simp add: statics_at_time)
    moreover note Cons.prems(2)
    moreover have "sorted (L # Ts)" using Cons.prems(3) by simp
    ultimately have "map valid (fst (loop (\<lambda>_. every_impl Tag board_millis interval g)
                           (map (\<lambda>t. (t, ())) (map of_nat Ts)) (at_time (of_nat T) s)))
           = spec_every_fires_counter (unat interval) L Ts"
      by (rule Cons.IH)
    with False iff show ?thesis
      by (simp add: every_poll_board [OF Cons.prems(1)] valid_factory case_prod_beta)
  qed
qed

lemma spec_every_fires_counter_exact:
  assumes "sorted (l # ts)" and "\<forall>t \<in> set ts. t - l < 2 ^ 32"
  shows "spec_every_fires_counter I l ts = spec_every_fires I l ts"
  using assms
proof (induction ts arbitrary: l)
  case Nil
  then show ?case by simp
next
  case (Cons t ts)
  have "sorted (t # ts)" and "sorted (l # ts)" and "l \<le> t"
    using Cons.prems(1) by simp_all
  moreover have "\<forall>t' \<in> set ts. t' - t < 2 ^ 32"
  proof
    fix t' assume "t' \<in> set ts"
    with Cons.prems(2) have "t' - l < 2 ^ 32" by simp
    with \<open>l \<le> t\<close> show "t' - t < 2 ^ 32" by simp
  qed
  moreover have "\<forall>t' \<in> set ts. t' - l < 2 ^ 32" and "t - l < 2 ^ 32"
    using Cons.prems(2) by simp_all
  ultimately show ?case
    by (simp add: Cons.IH)
qed

lemma spec_every_fires_counter_elapsed:
  assumes "sorted (l # ts)" and "i < length ts" and "spec_every_fires_counter I l ts ! i"
  shows "I \<le> ts ! i - l"
  using assms
proof (induction ts arbitrary: l i)
  case Nil
  then show ?case by simp
next
  case (Cons t ts)
  have m: "(t - l) mod 2 ^ 32 \<le> t - l" by simp
  show ?case
  proof (cases i)
    case 0
    with Cons.prems(3) have "I \<le> (t - l) mod 2 ^ 32"
      by (simp split: if_splits)
    with m 0 show ?thesis by simp
  next
    case (Suc k)
    show ?thesis
    proof (cases "I \<le> (t - l) mod 2 ^ 32")
      case True
      have "sorted (t # ts)" using Cons.prems(1) by simp
      moreover have "k < length ts" using Cons.prems(2) Suc by simp
      moreover have "spec_every_fires_counter I t ts ! k" using Cons.prems(3) Suc True by simp
      ultimately have "I \<le> ts ! k - t" by (rule Cons.IH)
      moreover have "l \<le> t" using Cons.prems(1) by simp
      ultimately show ?thesis using Suc by simp
    next
      case False
      have "sorted (l # ts)" using Cons.prems(1) by simp
      moreover have "k < length ts" using Cons.prems(2) Suc by simp
      moreover have "spec_every_fires_counter I l ts ! k" using Cons.prems(3) Suc False by simp
      ultimately have "I \<le> ts ! k - l" by (rule Cons.IH)
      then show ?thesis using Suc by simp
    qed
  qed
qed

lemma spec_every_fires_counter_spaced:
  assumes "sorted (l # ts)" and "i < j" and "j < length ts"
    and "spec_every_fires_counter I l ts ! i" and "spec_every_fires_counter I l ts ! j"
  shows "I \<le> ts ! j - ts ! i"
  using assms
proof (induction ts arbitrary: l i j)
  case Nil
  then show ?case by simp
next
  case (Cons t ts)
  from Cons.prems(2) obtain j' where j: "j = Suc j'" by (cases j) auto
  have srt: "sorted (t # ts)" and srl: "sorted (l # ts)"
    using Cons.prems(1) by simp_all
  have j'len: "j' < length ts" using Cons.prems(3) j by simp
  show ?case
  proof (cases i)
    case 0
    with Cons.prems(4) have fire: "I \<le> (t - l) mod 2 ^ 32" by (simp split: if_splits)
    with Cons.prems(5) j have "spec_every_fires_counter I t ts ! j'" by simp
    with srt j'len have "I \<le> ts ! j' - t" by (rule spec_every_fires_counter_elapsed)
    with 0 j show ?thesis by simp
  next
    case (Suc i')
    have lt: "i' < j'" using Cons.prems(2) Suc j by simp
    show ?thesis
    proof (cases "I \<le> (t - l) mod 2 ^ 32")
      case True
      have "spec_every_fires_counter I t ts ! i'" "spec_every_fires_counter I t ts ! j'"
        using Cons.prems(4,5) Suc j True by simp_all
      with srt lt j'len have "I \<le> ts ! j' - ts ! i'" by (rule Cons.IH)
      with Suc j show ?thesis by simp
    next
      case False
      have "spec_every_fires_counter I l ts ! i'" "spec_every_fires_counter I l ts ! j'"
        using Cons.prems(4,5) Suc j False by simp_all
      with srl lt j'len have "I \<le> ts ! j' - ts ! i'" by (rule Cons.IH)
      with Suc j show ?thesis by simp
    qed
  qed
qed


text \<open>
  C6 (as amended). For every interval and any clock, a poll of the unconditional policy
  fires, that is runs the stored callback with \<open>dt\<close>, returns its value and sets the last
  fire time to \<open>now\<close>, exactly when \<open>dt = now - lastFireTime\<close> on the 32-bit counter is at
  least the interval; otherwise it returns empty and runs nothing. With true times that
  only advance, \<open>dt\<close> is the elapsed time modulo \<open>2^32\<close>, and the elapsed time itself while
  that is below \<open>2^32\<close>. Over a run of polls on the board, started with the call site
  constructed (\<open>l\<close> its last fire time) or not yet reached (\<open>l\<close> the reading of the first
  poll, the timer start), the results and the final world are those of the plain
  recursion that runs the callback at each due poll. With advancing true times the polls
  that fire are those that the counter's wording picks, and those that the specification's
  wording picks while every poll is within \<open>2^32\<close> of the start; every fire is at least one
  interval after the start, and any two fires are at least one interval apart.
\<close>

theorem every_fires_iff_interval_elapsed:
  "(statics s Tag = Some h \<longrightarrow> millisFunc (world s) = (now, w1) \<longrightarrow>
      every_impl Tag millisFunc interval g s
        = (if interval \<le> now - lastT h
           then (MaybeFactory_value (Some Tag)
                   (fst (invoke (stored_f h) (now - lastT h) w1)),
                 \<lparr>statics = (statics s)(Tag \<mapsto> h\<lparr>lastT := now\<rparr>),
                  world = snd (invoke (stored_f h) (now - lastT h) w1)\<rparr>)
           else (MaybeFactory_empty (Some Tag), s\<lparr>world := w1\<rparr>)))
   \<and> (lastT h = of_nat L \<longrightarrow> L \<le> T \<longrightarrow>
        (interval \<le> dt_of h (of_nat T)) = (unat interval \<le> (T - L) mod 2 ^ 32)
        \<and> (T - L < 2 ^ 32 \<longrightarrow>
             (interval \<le> dt_of h (of_nat T)) = (unat interval \<le> T - L)))
   \<and> ((statics sb Tag = Some hb \<and> l = lastT hb \<and> cb = stored_f hb)
         \<or> (statics sb Tag = None \<and> ts \<noteq> [] \<and> l = hd ts \<and> cb = gb) \<longrightarrow>
        map value_of (fst (loop (\<lambda>_. every_impl Tag board_millis intervalb gb)
                             (map (\<lambda>t. (t, ())) ts) sb))
          = fst (spec_every_run intervalb l cb ts (world sb))
        \<and> world (snd (loop (\<lambda>_. every_impl Tag board_millis intervalb gb)
                         (map (\<lambda>t. (t, ())) ts) sb))
          = snd (spec_every_run intervalb l cb ts (world sb))
        \<and> (l = of_nat L0 \<longrightarrow> ts = map of_nat Ts \<longrightarrow> sorted (L0 # Ts) \<longrightarrow>
             (let fired = map valid (fst (loop (\<lambda>_. every_impl Tag board_millis intervalb gb)
                                            (map (\<lambda>t. (t, ())) ts) sb))
              in fired = spec_every_fires_counter (unat intervalb) L0 Ts
                 \<and> ((\<forall>T \<in> set Ts. T - L0 < 2 ^ 32) \<longrightarrow>
                        fired = spec_every_fires (unat intervalb) L0 Ts)
                 \<and> (\<forall>i. i < length Ts \<longrightarrow> fired ! i \<longrightarrow> unat intervalb \<le> Ts ! i - L0)
                 \<and> (\<forall>i j. i < j \<longrightarrow> j < length Ts \<longrightarrow> fired ! i \<longrightarrow> fired ! j \<longrightarrow>
                        unat intervalb \<le> Ts ! j - Ts ! i))))"
proof (intro conjI)
  show "statics s Tag = Some h \<longrightarrow> millisFunc (world s) = (now, w1) \<longrightarrow>
      every_impl Tag millisFunc interval g s
        = (if interval \<le> now - lastT h
           then (MaybeFactory_value (Some Tag)
                   (fst (invoke (stored_f h) (now - lastT h) w1)),
                 \<lparr>statics = (statics s)(Tag \<mapsto> h\<lparr>lastT := now\<rparr>),
                  world = snd (invoke (stored_f h) (now - lastT h) w1)\<rparr>)
           else (MaybeFactory_empty (Some Tag), s\<lparr>world := w1\<rparr>))"
    by (intro impI every_poll)
next
  show "lastT h = of_nat L \<longrightarrow> L \<le> T \<longrightarrow>
        (interval \<le> dt_of h (of_nat T)) = (unat interval \<le> (T - L) mod 2 ^ 32)
        \<and> (T - L < 2 ^ 32 \<longrightarrow>
             (interval \<le> dt_of h (of_nat T)) = (unat interval \<le> T - L))"
  proof (intro impI)
    assume l: "lastT h = of_nat L" and le: "L \<le> T"
    have "(interval \<le> dt_of h (of_nat T)) = (unat interval \<le> (T - L) mod 2 ^ 32)"
      using due_iff_counter [OF le, of interval] by (simp add: dt_of_def l)
    then show "(interval \<le> dt_of h (of_nat T)) = (unat interval \<le> (T - L) mod 2 ^ 32)
        \<and> (T - L < 2 ^ 32 \<longrightarrow>
             (interval \<le> dt_of h (of_nat T)) = (unat interval \<le> T - L))"
      by simp
  qed
next
  let ?P = "\<lambda>_. every_impl Tag board_millis intervalb gb"
  let ?I = "unat intervalb"
  show "(statics sb Tag = Some hb \<and> l = lastT hb \<and> cb = stored_f hb)
         \<or> (statics sb Tag = None \<and> ts \<noteq> [] \<and> l = hd ts \<and> cb = gb) \<longrightarrow>
        map value_of (fst (loop ?P (map (\<lambda>t. (t, ())) ts) sb))
          = fst (spec_every_run intervalb l cb ts (world sb))
        \<and> world (snd (loop ?P (map (\<lambda>t. (t, ())) ts) sb))
          = snd (spec_every_run intervalb l cb ts (world sb))
        \<and> (l = of_nat L0 \<longrightarrow> ts = map of_nat Ts \<longrightarrow> sorted (L0 # Ts) \<longrightarrow>
             (let fired = map valid (fst (loop ?P (map (\<lambda>t. (t, ())) ts) sb))
              in fired = spec_every_fires_counter ?I L0 Ts
                 \<and> ((\<forall>T \<in> set Ts. T - L0 < 2 ^ 32) \<longrightarrow> fired = spec_every_fires ?I L0 Ts)
                 \<and> (\<forall>i. i < length Ts \<longrightarrow> fired ! i \<longrightarrow> ?I \<le> Ts ! i - L0)
                 \<and> (\<forall>i j. i < j \<longrightarrow> j < length Ts \<longrightarrow> fired ! i \<longrightarrow> fired ! j \<longrightarrow>
                        ?I \<le> Ts ! j - Ts ! i)))"
  proof
    assume start: "(statics sb Tag = Some hb \<and> l = lastT hb \<and> cb = stored_f hb)
         \<or> (statics sb Tag = None \<and> ts \<noteq> [] \<and> l = hd ts \<and> cb = gb)"
    from start obtain s0 h0 where st: "statics s0 Tag = Some h0" and l0: "lastT h0 = l"
      and cb0: "stored_f h0 = cb" and w0: "world s0 = world sb"
      and run: "loop ?P (map (\<lambda>t. (t, ())) ts) sb = loop ?P (map (\<lambda>t. (t, ())) ts) s0"
      by (rule loop_every_start)
    have vals: "map value_of (fst (loop ?P (map (\<lambda>t. (t, ())) ts) sb))
          = fst (spec_every_run intervalb l cb ts (world sb))
        \<and> world (snd (loop ?P (map (\<lambda>t. (t, ())) ts) sb))
          = snd (spec_every_run intervalb l cb ts (world sb))"
      using loop_every_run [OF st, of intervalb gb ts] by (simp only: run l0 cb0 w0)
    have timed: "(let fired = map valid (fst (loop ?P (map (\<lambda>t. (t, ())) ts) sb))
              in fired = spec_every_fires_counter ?I L0 Ts
                 \<and> ((\<forall>T \<in> set Ts. T - L0 < 2 ^ 32) \<longrightarrow> fired = spec_every_fires ?I L0 Ts)
                 \<and> (\<forall>i. i < length Ts \<longrightarrow> fired ! i \<longrightarrow> ?I \<le> Ts ! i - L0)
                 \<and> (\<forall>i j. i < j \<longrightarrow> j < length Ts \<longrightarrow> fired ! i \<longrightarrow> fired ! j \<longrightarrow>
                        ?I \<le> Ts ! j - Ts ! i))"
      if l: "l = of_nat L0" and ts: "ts = map of_nat Ts" and srt: "sorted (L0 # Ts)"
    proof -
      let ?fired = "map valid (fst (loop ?P (map (\<lambda>t. (t, ())) ts) sb))"
      have "lastT h0 = of_nat L0" using l0 l by simp
      with st have "map valid (fst (loop ?P (map (\<lambda>t. (t, ())) (map of_nat Ts)) s0))
                      = spec_every_fires_counter ?I L0 Ts"
        using srt by (rule loop_every_counter)
      with run have ref: "?fired = spec_every_fires_counter ?I L0 Ts"
        by (simp add: ts)
      have exact: "?fired = spec_every_fires ?I L0 Ts" if "\<forall>T \<in> set Ts. T - L0 < 2 ^ 32"
        using spec_every_fires_counter_exact [OF srt that, of ?I] by (simp only: ref)
      have one: "?I \<le> Ts ! i - L0" if "i < length Ts" and "?fired ! i" for i
        using srt that(1) that(2) [unfolded ref] by (rule spec_every_fires_counter_elapsed)
      have two: "?I \<le> Ts ! j - Ts ! i"
        if "i < j" and "j < length Ts" and "?fired ! i" and "?fired ! j" for i j
        using srt that(1,2) that(3) [unfolded ref] that(4) [unfolded ref]
        by (rule spec_every_fires_counter_spaced)
      from ref exact one two show ?thesis
        unfolding Let_def by blast
    qed
    from vals timed
    show "map value_of (fst (loop ?P (map (\<lambda>t. (t, ())) ts) sb))
          = fst (spec_every_run intervalb l cb ts (world sb))
        \<and> world (snd (loop ?P (map (\<lambda>t. (t, ())) ts) sb))
          = snd (spec_every_run intervalb l cb ts (world sb))
        \<and> (l = of_nat L0 \<longrightarrow> ts = map of_nat Ts \<longrightarrow> sorted (L0 # Ts) \<longrightarrow>
             (let fired = map valid (fst (loop ?P (map (\<lambda>t. (t, ())) ts) sb))
              in fired = spec_every_fires_counter ?I L0 Ts
                 \<and> ((\<forall>T \<in> set Ts. T - L0 < 2 ^ 32) \<longrightarrow> fired = spec_every_fires ?I L0 Ts)
                 \<and> (\<forall>i. i < length Ts \<longrightarrow> fired ! i \<longrightarrow> ?I \<le> Ts ! i - L0)
                 \<and> (\<forall>i j. i < j \<longrightarrow> j < length Ts \<longrightarrow> fired ! i \<longrightarrow> fired ! j \<longrightarrow>
                        ?I \<le> Ts ! j - Ts ! i)))"
      by blast
  qed
qed

theorem every_fires_iff_interval_elapsed_witness:
  "map valid (fst (loop (\<lambda>_. every_impl 7 board_millis 1000 report_dt)
                     (map (\<lambda>t. (t, ()))
                        (map of_nat [4294967696, 4294968196, 4294968696, 4294969196,
                                     4294970195, 4294970196]))
                     (armed (of_nat 4294967196) 0)))
     = [False, True, False, True, False, True]
   \<and> map value_of (fst (loop (\<lambda>_. every_impl 7 board_millis 1000 report_dt)
                     (map (\<lambda>t. (t, ()))
                        (map of_nat [4294967696, 4294968196, 4294968696, 4294969196,
                                     4294970195, 4294970196]))
                     (armed (of_nat 4294967196) 0)))
     = [None, Some 1000, None, Some 1000, None, Some 1000]
   \<and> user (world (snd (loop (\<lambda>_. every_impl 7 board_millis 1000 report_dt)
                     (map (\<lambda>t. (t, ()))
                        (map of_nat [4294967696, 4294968196, 4294968696, 4294969196,
                                     4294970195, 4294970196]))
                     (armed (of_nat 4294967196) 0)))) = 3
   \<and> spec_every_fires 1000 4294967196
        [4294967696, 4294968196, 4294968696, 4294969196, 4294970195, 4294970196]
     = [False, True, False, True, False, True]"
  using every_fires_iff_interval_elapsed
          [where sb = "armed (of_nat 4294967196) 0" and Tag = 7
             and hb = "timer7 (of_nat 4294967196)" and l = "of_nat 4294967196"
             and cb = report_dt and gb = report_dt and intervalb = 1000
             and ts = "map of_nat [4294967696, 4294968196, 4294968696, 4294969196,
                                   4294970195, 4294970196]"
             and ?L0.0 = 4294967196
             and Ts = "[4294967696, 4294968196, 4294968696, 4294969196, 4294970195, 4294970196]",
           THEN conjunct2, THEN conjunct2]
  by (simp add: scenario_defs armed_def timer7_def)

text \<open>
  C6 as stated fails once the counter has gone round: last fire time 0, interval 500 and a
  poll at true time \<open>2^32 + 100\<close>. The elapsed time is far above the interval and the
  specification's wording fires, but the counter reads 100, \<open>dt\<close> is 100 and the callback
  does not run.
\<close>

theorem every_does_not_fire_after_wrap:
  "\<not> valid (fst (every_impl 7 board_millis 500 report_dt
                  (at_time (of_nat 4294967396) (armed 0 0))))
   \<and> user (world (snd (every_impl 7 board_millis 500 report_dt
                          (at_time (of_nat 4294967396) (armed 0 0))))) = 0
   \<and> spec_every_fires 500 0 [4294967396] = [True]"
  by (simp add: scenario_defs armed_def timer7_def)

end
